theory Spec2Isabelle
  imports Complex_Main "HOL-Library.Multiset"
begin

section \<open>Strings of the host language\<close>

text \<open>
  A source string is a sequence of code units; \<^typ>\<open>string\<close> stands for it, one
  \<^typ>\<open>char\<close> per code unit, and \<open>length\<close> is the source's \<open>.length\<close>.

  \<open>s.indexOf(t, position)\<close>: the position is clamped to \<open>[0, s.length]\<close>; the result is
  the least \<open>k\<close> at or after it where \<open>t\<close> occurs in \<open>s\<close>, and \<open>-1\<close> (here \<open>None\<close>)
  when there is none. The empty \<open>t\<close> occurs at every position up to \<open>s.length\<close>.
\<close>

definition occursAt :: "string \<Rightarrow> string \<Rightarrow> nat \<Rightarrow> bool" where
  "occursAt s t k = (take (length t) (drop k s) = t)"

definition indexOf :: "string \<Rightarrow> string \<Rightarrow> nat \<Rightarrow> nat option" where
  "indexOf s t position =
     List.find (occursAt s t) [min position (length s) ..< Suc (length s)]"

definition includes_str :: "string \<Rightarrow> string \<Rightarrow> bool" where
  "includes_str s t = (indexOf s t 0 \<noteq> None)"

text \<open>\<open>parts.join(sep)\<close>.\<close>

fun join :: "string \<Rightarrow> string list \<Rightarrow> string" where
  "join sep [] = []"
| "join sep [x] = x"
| "join sep (x # y # ys) = x @ sep @ join sep (y # ys)"


section \<open>The remote document service\<close>

text \<open>
  The mutation requests the helpers compile. Only the request kinds that the functions
  below build are listed; indices are the service's absolute document indices.
\<close>

record rgb_color =
  red :: real
  green :: real
  blue :: real

record text_style =
  ts_bold :: "bool option"
  ts_italic :: "bool option"
  ts_underline :: "bool option"
  ts_strikethrough :: "bool option"
  ts_fontSize :: "real option"
  ts_weightedFontFamily :: "string option"
  ts_foregroundColor :: "rgb_color option"
  ts_backgroundColor :: "rgb_color option"
  ts_link :: "string option"

datatype request =
    DeleteContentRange int int
  | InsertText int string
  | UpdateTextStyle int int text_style string
  | InsertInlineImage int string "(real \<times> real) option"

text \<open>
  An error object thrown by the client library: \<open>error.code\<close>, \<open>error.message\<close> and
  \<open>error.response?.data?.error?.details\<close>, present when it is an array. Of a detail \<open>d\<close>
  the source reads \<open>d.description\<close> and, where that is absent or empty, \<open>JSON.stringify(d)\<close>;
  the detail is given by these two texts.
\<close>

record error_detail =
  detail_description :: "string option"
  detail_json :: string

record api_error =
  code :: "int option"
  message :: string
  details :: "error_detail list option"

text \<open>
  What the helpers throw. \<open>UserError\<close> is the client-facing error class, \<open>Error\<close> the
  generic one, \<open>TypeError\<close> the runtime's error for a property read on \<open>undefined\<close>, and
  \<open>Rethrown\<close> an upstream error passed on unchanged by a \<open>catch\<close> block. The message of
  a \<open>UserError\<close> is kept as a tag with the values the source interpolates into it.
\<close>

datatype user_message =
    InvalidRequestSent string
  | DocumentNotFound string
  | PermissionDenied string
  | DocumentNotFoundWhileSearching string
  | PermissionDeniedWhileSearching string
  | RowOutOfBounds int nat
  | ColumnOutOfBounds int nat
  | CouldNotFindCell int int int
  | NoTableFound int
  | FailedToGetTableCell
  | InvalidForegroundColor string
  | InvalidBackgroundColor string
  | InvalidImageUrl string
  | ProtocolNotSupported string
  | PrivateAddressNotAllowed string

datatype error =
    UserError user_message
  | Error string
  | GoogleApiError "int option" string
  | TypeError
  | Rethrown api_error

text \<open>
  The structural elements of a fetched document. An optional array of the response
  (\<open>tableRows\<close>, \<open>tableCells\<close>, a cell's \<open>content\<close>, a paragraph's \<open>elements\<close>) is read by
  the source as the empty array whenever it is absent (\<open>x || []\<close>, \<open>if (x) x.forEach\<close>,
  \<open>x?.length || 0\<close>), so the embedding stores the array; whether an element has a
  \<open>paragraph\<close> or a \<open>table\<close> at all, and whether an index is defined, is kept as an option.
  \<open>pe_content\<close> is \<open>pe.textRun?.content\<close>.
\<close>

record paragraph_element =
  pe_startIndex :: "int option"
  pe_endIndex :: "int option"
  pe_content :: "string option"

datatype structural_element =
  StructuralElement
    (el_startIndex: "int option")
    (el_endIndex: "int option")
    (el_paragraph: "paragraph_element list option")
    (el_table: "table_cell list list option")
and table_cell =
  TableCell
    (cell_startIndex: "int option")
    (cell_endIndex: "int option")
    (cell_content: "structural_element list")

text \<open>
  The client: \<open>docs.documents.get\<close> answers with \<open>res.data.body?.content\<close> (absent:
  \<open>None\<close>) or throws; \<open>docs.documents.batchUpdate\<close> answers with \<open>response.data\<close> or
  throws. Every call made is recorded, together with the batch-size warning of
  \<open>executeBatchUpdate\<close>, so that a theorem can say which calls a helper makes.
\<close>

record 'r docs =
  documents_get :: "string \<Rightarrow> api_error + structural_element list option"
  documents_batchUpdate :: "string \<Rightarrow> request list \<Rightarrow> api_error + 'r"

datatype event =
    GetCall string
  | BatchUpdateCall string "request list"
  | BatchSizeWarning nat

datatype 'r batch_response = EmptyResponse | ResponseData 'r


section \<open>executeBatchUpdate\<close>

definition MAX_BATCH_UPDATE_REQUESTS :: nat where
  "MAX_BATCH_UPDATE_REQUESTS = 50"

text \<open>\<open>d.description || JSON.stringify(d)\<close>.\<close>

definition detailText :: "error_detail \<Rightarrow> string" where
  "detailText d =
     (case detail_description d of
        None \<Rightarrow> detail_json d
      | Some description \<Rightarrow> (if description \<noteq> [] then description else detail_json d))"

text \<open>The \<open>catch\<close> block of \<open>executeBatchUpdate\<close>: the translation of a thrown API error.\<close>

definition translateBatchUpdateError :: "string \<Rightarrow> api_error \<Rightarrow> error" where
  "translateBatchUpdateError documentId err =
     (if code err = Some 400 \<and> includes_str (message err) ''Invalid requests'' then
        (let detailMsg = (case details err of
                            None \<Rightarrow> []
                          | Some ds \<Rightarrow> join ''; '' (map detailText ds))
         in UserError (InvalidRequestSent (if detailMsg \<noteq> [] then detailMsg else message err)))
      else if code err = Some 404 then UserError (DocumentNotFound documentId)
      else if code err = Some 403 then UserError (PermissionDenied documentId)
      else GoogleApiError (code err) (message err))"

definition executeBatchUpdate ::
  "'r docs \<Rightarrow> string \<Rightarrow> request list \<Rightarrow> (error + 'r batch_response) \<times> event list" where
  "executeBatchUpdate docs documentId requests =
     (if requests = [] then (Inr EmptyResponse, [])
      else
        (let warned = (if length requests > MAX_BATCH_UPDATE_REQUESTS
                       then [BatchSizeWarning (length requests)] else [])
         in case documents_batchUpdate docs documentId requests of
              Inr data \<Rightarrow> (Inr (ResponseData data), warned @ [BatchUpdateCall documentId requests])
            | Inl err \<Rightarrow> (Inl (translateBatchUpdateError documentId err),
                          warned @ [BatchUpdateCall documentId requests])))"



section \<open>findTextRange\<close>

text \<open>
  The segments of \<open>findTextRange\<close>: \<open>{ text, start, end }\<close>, one per text run that has
  a non-empty content and both indices.
\<close>

record segment =
  seg_text :: string
  seg_start :: int
  seg_end :: int

record resolved_range =
  range_startIndex :: int
  range_endIndex :: int

text \<open>
  \<open>collectTextFromContent\<close> appends to the two variables \<open>fullText\<close> and \<open>segments\<close> of
  the enclosing function; here they are passed along as a pair. A paragraph's runs are
  read first, then the table's rows, each row's cells from left to right, each cell's
  content by the same function.
\<close>

type_synonym collector = "string \<times> segment list"

definition collectParagraphElement :: "paragraph_element \<Rightarrow> collector \<Rightarrow> collector" where
  "collectParagraphElement pe acc =
     (case (pe_content pe, pe_startIndex pe, pe_endIndex pe) of
        (Some content, Some s, Some e) \<Rightarrow>
          (if content \<noteq> []
           then (fst acc @ content,
                 snd acc @ [\<lparr>seg_text = content, seg_start = s, seg_end = e\<rparr>])
           else acc)
      | _ \<Rightarrow> acc)"

fun collectTextFromContent :: "structural_element list \<Rightarrow> collector \<Rightarrow> collector"
and collectElement :: "structural_element \<Rightarrow> collector \<Rightarrow> collector"
and collectRows :: "table_cell list list \<Rightarrow> collector \<Rightarrow> collector"
and collectCells :: "table_cell list \<Rightarrow> collector \<Rightarrow> collector"
where
  "collectTextFromContent [] acc = acc"
| "collectTextFromContent (element # rest) acc =
     collectTextFromContent rest (collectElement element acc)"
| "collectElement (StructuralElement s e p t) acc =
     (let acc1 = (case p of None \<Rightarrow> acc
                  | Some elements \<Rightarrow> foldl (\<lambda>a pe. collectParagraphElement pe a) acc elements)
      in case t of None \<Rightarrow> acc1 | Some tableRows \<Rightarrow> collectRows tableRows acc1)"
| "collectRows [] acc = acc"
| "collectRows (row # rows) acc = collectRows rows (collectCells row acc)"
| "collectCells [] acc = acc"
| "collectCells (TableCell s e content # cells) acc =
     collectCells cells (collectTextFromContent content acc)"

text \<open>
  The text and the segments the search works on: the collected text, and the collected
  segments after \<open>segments.sort((a, b) => a.start - b.start)\<close>, a stable sort by \<open>start\<close>.
\<close>

definition reconstructText :: "structural_element list \<Rightarrow> string \<times> segment list" where
  "reconstructText content =
     (let collected = collectTextFromContent content ([], [])
      in (fst collected, sort_key seg_start (snd collected)))"

text \<open>
  The \<open>for (const seg of segments)\<close> loop that maps a hit \<open>[targetStart, targetEnd)\<close> of
  the full text to document indices. \<open>startIndex\<close> and \<open>endIndex\<close> are the two variables of
  the enclosing function, \<open>-1\<close> while unset; the loop leaves at the segment that maps the
  end.
\<close>

fun mapToDocument ::
  "segment list \<Rightarrow> int \<Rightarrow> int \<Rightarrow> int \<Rightarrow> int \<Rightarrow> int \<Rightarrow> int \<times> int" where
  "mapToDocument [] targetStart targetEnd currentPos startIndex endIndex =
     (startIndex, endIndex)"
| "mapToDocument (seg # segs) targetStart targetEnd currentPos startIndex endIndex =
     (let segStart = currentPos;
          segEnd = segStart + int (length (seg_text seg));
          startIndex' = (if startIndex = -1 \<and> targetStart \<ge> segStart \<and> targetStart < segEnd
                         then seg_start seg + (targetStart - segStart) else startIndex)
      in if targetEnd > segStart \<and> targetEnd \<le> segEnd
         then (startIndex', seg_start seg + (targetEnd - segStart))
         else mapToDocument segs targetStart targetEnd segEnd startIndex' endIndex)"

text \<open>
  The \<open>while (foundCount < instance)\<close> loop. The outer \<open>option\<close> is whether the loop
  returns at all; the inner one is the function's result, \<open>None\<close> for \<open>null\<close>. At the head
  of every iteration \<open>startIndex\<close> and \<open>endIndex\<close> are \<open>-1\<close> (they are reset before
  \<open>continue\<close>), so they are not arguments.
\<close>

partial_function (option) searchLoop ::
  "string \<Rightarrow> segment list \<Rightarrow> string \<Rightarrow> int \<Rightarrow> int \<Rightarrow> nat \<Rightarrow> resolved_range option option"
where
  "searchLoop fullText segments textToFind instance foundCount searchStartIndex =
     (if foundCount < instance then
        (case indexOf fullText textToFind searchStartIndex of
           None \<Rightarrow> Some None
         | Some currentIndex \<Rightarrow>
             (if foundCount + 1 = instance then
                (let mapped = mapToDocument segments (int currentIndex)
                                (int currentIndex + int (length textToFind)) 0 (-1) (-1)
                 in if fst mapped = -1 \<or> snd mapped = -1
                    then searchLoop fullText segments textToFind instance foundCount
                           (currentIndex + 1)
                    else Some (Some \<lparr>range_startIndex = fst mapped, range_endIndex = snd mapped\<rparr>))
              else searchLoop fullText segments textToFind instance (foundCount + 1)
                     (currentIndex + 1)))
      else Some None)"

text \<open>The body of \<open>findTextRange\<close> once the document has been fetched.\<close>

definition findTextRangeInContent ::
  "structural_element list \<Rightarrow> string \<Rightarrow> int \<Rightarrow> resolved_range option option" where
  "findTextRangeInContent content textToFind instance =
     (let reconstructed = reconstructText content
      in searchLoop (fst reconstructed) (snd reconstructed) textToFind instance 0 0)"

definition translateFindTextError :: "string \<Rightarrow> api_error \<Rightarrow> error" where
  "translateFindTextError documentId err =
     (if code err = Some 404 then UserError (DocumentNotFoundWhileSearching documentId)
      else if code err = Some 403 then UserError (PermissionDeniedWhileSearching documentId)
      else Error (''Failed to retrieve doc for text searching: ''
                  @ (if message err \<noteq> [] then message err else ''Unknown error'')))"

definition findTextRange ::
  "'r docs \<Rightarrow> string \<Rightarrow> string \<Rightarrow> int
     \<Rightarrow> ((error + resolved_range option) \<times> event list) option" where
  "findTextRange docs documentId textToFind instance =
     (case documents_get docs documentId of
        Inl err \<Rightarrow> Some (Inl (translateFindTextError documentId err), [GetCall documentId])
      | Inr None \<Rightarrow> Some (Inr None, [GetCall documentId])
      | Inr (Some content) \<Rightarrow>
          map_option (\<lambda>r. (Inr r, [GetCall documentId]))
            (findTextRangeInContent content textToFind instance))"


section \<open>hexToRgbColor and buildUpdateTextStyleRequest\<close>

text \<open>
  \<open>parseInt(str, 16)\<close>: leading white space is skipped, then an optional sign, then an
  optional \<open>0x\<close>, and the longest run of hexadecimal digits is read; \<open>NaN\<close> (here \<open>None\<close>)
  when that run is empty. White space is given for the code units below 256.
\<close>

definition isWhiteSpace :: "char \<Rightarrow> bool" where
  "isWhiteSpace c =
     (c \<in> set [CHR 0x09, CHR 0x0A, CHR 0x0B, CHR 0x0C, CHR 0x0D, CHR 0x20, CHR 0xA0])"

definition hexDigitValue :: "char \<Rightarrow> int option" where
  "hexDigitValue c =
     map_of (zip ''0123456789abcdef'' [0, 1, 2, 3, 4, 5, 6, 7, 8, 9, 10, 11, 12, 13, 14, 15]
             @ zip ''ABCDEF'' [10, 11, 12, 13, 14, 15]) c"

definition parseInt16 :: "string \<Rightarrow> int option" where
  "parseInt16 str =
     (let s1 = dropWhile isWhiteSpace str;
          sign = (if take 1 s1 = ''-'' then - 1 else 1);
          s2 = (if take 1 s1 = ''-'' \<or> take 1 s1 = ''+'' then drop 1 s1 else s1);
          s3 = (if take 2 s2 = ''0x'' \<or> take 2 s2 = ''0X'' then drop 2 s2 else s2);
          digits = takeWhile (\<lambda>c. hexDigitValue c \<noteq> None) s3
      in if digits = [] then None
         else Some (sign * foldl (\<lambda>n c. 16 * n + the (hexDigitValue c)) 0 digits))"

text \<open>
  \<open>(bigint >> 16) & 255\<close> on a number of at most six hexadecimal digits is the floor
  division by \<open>2^16\<close> followed by the remainder modulo 256; the quotient by 255 is taken
  exactly.
\<close>

definition hexToRgbColor :: "string \<Rightarrow> rgb_color option" where
  "hexToRgbColor hex =
     (if hex = [] then None
      else
        (let hexClean = (if take 1 hex = ''#'' then drop 1 hex else hex);
             hexClean = (if length hexClean = 3
                         then [hexClean ! 0, hexClean ! 0, hexClean ! 1, hexClean ! 1,
                               hexClean ! 2, hexClean ! 2]
                         else hexClean)
         in if length hexClean \<noteq> 6 then None
            else (case parseInt16 hexClean of
                    None \<Rightarrow> None
                  | Some bigint \<Rightarrow>
                      Some \<lparr>red = real_of_int ((bigint div 65536) mod 256) / 255,
                            green = real_of_int ((bigint div 256) mod 256) / 255,
                            blue = real_of_int (bigint mod 256) / 255\<rparr>)))"

text \<open>\<open>TextStyleArgs\<close>: every property is optional.\<close>

record text_style_args =
  bold :: "bool option"
  italic :: "bool option"
  underline :: "bool option"
  strikethrough :: "bool option"
  fontSize :: "real option"
  fontFamily :: "string option"
  foregroundColor :: "string option"
  backgroundColor :: "string option"
  linkUrl :: "string option"

definition emptyTextStyle :: text_style where
  "emptyTextStyle =
     \<lparr>ts_bold = None, ts_italic = None, ts_underline = None, ts_strikethrough = None,
      ts_fontSize = None, ts_weightedFontFamily = None, ts_foregroundColor = None,
      ts_backgroundColor = None, ts_link = None\<rparr>"

text \<open>
  The function fills \<open>textStyle\<close> and pushes onto \<open>fieldsToUpdate\<close> statement by
  statement; the pair of the two is the state each statement transforms. \<open>setField\<close> is
  a statement \<open>if (style.x !== undefined) { textStyle.y = ...; fieldsToUpdate.push(name) }\<close>,
  and \<open>setColor\<close> one of the two colour statements, which throw when \<open>hexToRgbColor\<close>
  returns \<open>null\<close>.
\<close>

type_synonym style_builder = "text_style \<times> string list"

definition setField ::
  "'a option \<Rightarrow> (text_style \<Rightarrow> 'a \<Rightarrow> text_style) \<Rightarrow> string \<Rightarrow> style_builder \<Rightarrow> style_builder"
where
  "setField styleValue assign name b =
     (case styleValue of
        None \<Rightarrow> b
      | Some v \<Rightarrow> (assign (fst b) v, snd b @ [name]))"

definition setColor ::
  "string option \<Rightarrow> (text_style \<Rightarrow> rgb_color \<Rightarrow> text_style) \<Rightarrow> string
     \<Rightarrow> (string \<Rightarrow> user_message) \<Rightarrow> style_builder \<Rightarrow> error + style_builder"
where
  "setColor styleValue assign name invalid b =
     (case styleValue of
        None \<Rightarrow> Inr b
      | Some v \<Rightarrow>
          (case hexToRgbColor v of
             None \<Rightarrow> Inl (UserError (invalid v))
           | Some rgbColor \<Rightarrow> Inr (assign (fst b) rgbColor, snd b @ [name])))"

definition buildUpdateTextStyleRequest ::
  "int \<Rightarrow> int \<Rightarrow> text_style_args \<Rightarrow> error + (request \<times> string list) option" where
  "buildUpdateTextStyleRequest startIndex endIndex style =
     (let b = (emptyTextStyle, []);
          b = setField (bold style) (\<lambda>ts v. ts\<lparr>ts_bold := Some v\<rparr>) ''bold'' b;
          b = setField (italic style) (\<lambda>ts v. ts\<lparr>ts_italic := Some v\<rparr>) ''italic'' b;
          b = setField (underline style) (\<lambda>ts v. ts\<lparr>ts_underline := Some v\<rparr>) ''underline'' b;
          b = setField (strikethrough style) (\<lambda>ts v. ts\<lparr>ts_strikethrough := Some v\<rparr>)
                ''strikethrough'' b;
          b = setField (fontSize style) (\<lambda>ts v. ts\<lparr>ts_fontSize := Some v\<rparr>) ''fontSize'' b;
          b = setField (fontFamily style) (\<lambda>ts v. ts\<lparr>ts_weightedFontFamily := Some v\<rparr>)
                ''weightedFontFamily'' b
      in case setColor (foregroundColor style) (\<lambda>ts c. ts\<lparr>ts_foregroundColor := Some c\<rparr>)
                ''foregroundColor'' InvalidForegroundColor b of
           Inl err \<Rightarrow> Inl err
         | Inr b \<Rightarrow>
             (case setColor (backgroundColor style) (\<lambda>ts c. ts\<lparr>ts_backgroundColor := Some c\<rparr>)
                     ''backgroundColor'' InvalidBackgroundColor b of
                Inl err \<Rightarrow> Inl err
              | Inr b \<Rightarrow>
                  (let b = setField (linkUrl style) (\<lambda>ts v. ts\<lparr>ts_link := Some v\<rparr>) ''link'' b
                   in if snd b = [] then Inr None
                      else Inr (Some (UpdateTextStyle startIndex endIndex (fst b)
                                        (join '','' (snd b)),
                                      snd b)))))"


section \<open>Tables\<close>

record table_descriptor =
  td_startIndex :: int
  td_endIndex :: int
  td_rows :: nat
  td_columns :: nat

text \<open>\<open>tableRows[0]?.tableCells?.length || 0\<close>.\<close>

definition firstRowCellCount :: "table_cell list list \<Rightarrow> nat" where
  "firstRowCellCount tableRows = (case tableRows of [] \<Rightarrow> 0 | row # _ \<Rightarrow> length row)"

text \<open>The \<open>forEach\<close> of \<open>findTables\<close> over the top-level elements of the body.\<close>

fun findTablesInContent :: "structural_element list \<Rightarrow> table_descriptor list" where
  "findTablesInContent [] = []"
| "findTablesInContent (element # rest) =
     (case (el_table element, el_startIndex element, el_endIndex element) of
        (Some tableRows, Some s, Some e) \<Rightarrow>
          [\<lparr>td_startIndex = s, td_endIndex = e, td_rows = length tableRows,
            td_columns = firstRowCellCount tableRows\<rparr>]
      | _ \<Rightarrow> [])
     @ findTablesInContent rest"

definition findTables ::
  "'r docs \<Rightarrow> string \<Rightarrow> (error + table_descriptor list) \<times> event list" where
  "findTables docs documentId =
     (case documents_get docs documentId of
        Inl err \<Rightarrow> (Inl (Rethrown err), [GetCall documentId])
      | Inr None \<Rightarrow> (Inr [], [GetCall documentId])
      | Inr (Some content) \<Rightarrow> (Inr (findTablesInContent content), [GetCall documentId]))"

record cell_info =
  ci_content :: string
  ci_startIndex :: int
  ci_endIndex :: int

record table_structure =
  tst_startIndex :: int
  tst_endIndex :: "int option"
  tst_rows :: nat
  tst_columns :: nat
  tst_cells :: "cell_info list list"

text \<open>\<open>str.trim()\<close> removes white space at both ends.\<close>

definition trim :: "string \<Rightarrow> string" where
  "trim str = rev (dropWhile isWhiteSpace (rev (dropWhile isWhiteSpace str)))"

text \<open>
  The text of a cell as \<open>getTableStructure\<close> reads it: the runs of the paragraphs that are
  directly in the cell; and the entry it pushes for the cell.
\<close>

definition cellText :: "table_cell \<Rightarrow> string" where
  "cellText cell =
     concat (map (\<lambda>content.
        case el_paragraph content of
          None \<Rightarrow> []
        | Some elements \<Rightarrow>
            concat (map (\<lambda>elem. case pe_content elem of None \<Rightarrow> [] | Some c \<Rightarrow> c) elements))
       (cell_content cell))"

definition cellInfo :: "table_cell \<Rightarrow> cell_info" where
  "cellInfo cell =
     \<lparr>ci_content = trim (cellText cell),
      ci_startIndex = (case cell_startIndex cell of None \<Rightarrow> 0 | Some i \<Rightarrow> i),
      ci_endIndex = (case cell_endIndex cell of None \<Rightarrow> 0 | Some i \<Rightarrow> i)\<rparr>"

text \<open>
  The \<open>for\<close> loop of \<open>getTableStructure\<close>: the first element that has a table and whose
  \<open>startIndex\<close> is the requested one decides the result.
\<close>

fun getTableStructureInContent ::
  "structural_element list \<Rightarrow> int \<Rightarrow> table_structure option" where
  "getTableStructureInContent [] tableStartIndex = None"
| "getTableStructureInContent (element # rest) tableStartIndex =
     (case el_table element of
        Some tableRows \<Rightarrow>
          (if el_startIndex element = Some tableStartIndex
           then Some \<lparr>tst_startIndex = tableStartIndex, tst_endIndex = el_endIndex element,
                      tst_rows = length tableRows,
                      tst_columns = firstRowCellCount tableRows,
                      tst_cells = map (map cellInfo) tableRows\<rparr>
           else getTableStructureInContent rest tableStartIndex)
      | None \<Rightarrow> getTableStructureInContent rest tableStartIndex)"

definition getTableStructure ::
  "'r docs \<Rightarrow> string \<Rightarrow> int \<Rightarrow> (error + table_structure option) \<times> event list" where
  "getTableStructure docs documentId tableStartIndex =
     (case documents_get docs documentId of
        Inl err \<Rightarrow> (Inl (Rethrown err), [GetCall documentId])
      | Inr None \<Rightarrow> (Inr None, [GetCall documentId])
      | Inr (Some content) \<Rightarrow>
          (Inr (getTableStructureInContent content tableStartIndex), [GetCall documentId]))"

text \<open>
  The \<open>execute\<close> function of the \<open>getTableCell\<close> tool. Its result string is given by the
  cell entry it is formatted from. Reading \<open>table.cells[r][c]\<close> where the row has no such
  cell gives \<open>undefined\<close>, and the next property read throws a \<open>TypeError\<close>; the \<open>catch\<close>
  block turns every error that is not a \<open>UserError\<close> into one.
\<close>

definition getTableCell ::
  "'r docs \<Rightarrow> string \<Rightarrow> int \<Rightarrow> int \<Rightarrow> int \<Rightarrow> (error + cell_info) \<times> event list" where
  "getTableCell docs documentId tableIndex rowIndex columnIndex =
     (case getTableStructure docs documentId tableIndex of
        (Inl err, events) \<Rightarrow> (Inl (UserError FailedToGetTableCell), events)
      | (Inr None, events) \<Rightarrow> (Inl (UserError (NoTableFound tableIndex)), events)
      | (Inr (Some table), events) \<Rightarrow>
          (if rowIndex \<ge> int (tst_rows table)
           then (Inl (UserError (RowOutOfBounds rowIndex (tst_rows table))), events)
           else if columnIndex \<ge> int (tst_columns table)
           then (Inl (UserError (ColumnOutOfBounds columnIndex (tst_columns table))), events)
           else if rowIndex < 0 \<or> columnIndex < 0
                   \<or> nat columnIndex \<ge> length (tst_cells table ! nat rowIndex)
           then (Inl (UserError FailedToGetTableCell), events)
           else (Inr (tst_cells table ! nat rowIndex ! nat columnIndex), events)))"

text \<open>
  The \<open>for\<close> loop of \<open>getTableCellRange\<close>. A matching table whose addressed cell lacks an
  index does not end the loop. A negative index reads \<open>undefined\<close> from the array, and the
  property read that follows throws a \<open>TypeError\<close>.
\<close>

fun getTableCellRangeInContent ::
  "structural_element list \<Rightarrow> int \<Rightarrow> int \<Rightarrow> int \<Rightarrow> error + resolved_range option" where
  "getTableCellRangeInContent [] tableStartIndex rowIndex columnIndex = Inr None"
| "getTableCellRangeInContent (element # rest) tableStartIndex rowIndex columnIndex =
     (case el_table element of
        Some tableRows \<Rightarrow>
          (if el_startIndex element = Some tableStartIndex then
             (if rowIndex \<ge> int (length tableRows)
              then Inl (UserError (RowOutOfBounds rowIndex (length tableRows)))
              else if rowIndex < 0 then Inl TypeError
              else
                (let cells = tableRows ! nat rowIndex
                 in if columnIndex \<ge> int (length cells)
                    then Inl (UserError (ColumnOutOfBounds columnIndex (length cells)))
                    else if columnIndex < 0 then Inl TypeError
                    else
                      (let cell = cells ! nat columnIndex
                       in case (cell_startIndex cell, cell_endIndex cell) of
                            (Some s, Some e) \<Rightarrow>
                              Inr (Some \<lparr>range_startIndex = s, range_endIndex = e - 1\<rparr>)
                          | _ \<Rightarrow> getTableCellRangeInContent rest tableStartIndex
                                   rowIndex columnIndex)))
           else getTableCellRangeInContent rest tableStartIndex rowIndex columnIndex)
      | None \<Rightarrow> getTableCellRangeInContent rest tableStartIndex rowIndex columnIndex)"

definition getTableCellRange ::
  "'r docs \<Rightarrow> string \<Rightarrow> int \<Rightarrow> int \<Rightarrow> int
     \<Rightarrow> (error + resolved_range option) \<times> event list" where
  "getTableCellRange docs documentId tableStartIndex rowIndex columnIndex =
     (case documents_get docs documentId of
        Inl err \<Rightarrow> (Inl (Rethrown err), [GetCall documentId])
      | Inr None \<Rightarrow> (Inr None, [GetCall documentId])
      | Inr (Some content) \<Rightarrow>
          (getTableCellRangeInContent content tableStartIndex rowIndex columnIndex,
           [GetCall documentId]))"

text \<open>The requests \<open>updateTableCellContent\<close> builds from the cell range it was given.\<close>

definition cellContentRequests :: "resolved_range \<Rightarrow> string \<Rightarrow> request list" where
  "cellContentRequests cellRange newContent =
     (let contentStart = range_startIndex cellRange + 1;
          contentEnd = range_endIndex cellRange
      in (if contentEnd > contentStart
          then [DeleteContentRange contentStart contentEnd] else [])
         @ (if newContent \<noteq> [] then [InsertText contentStart newContent] else []))"

definition updateTableCellContent ::
  "'r docs \<Rightarrow> string \<Rightarrow> int \<Rightarrow> int \<Rightarrow> int \<Rightarrow> string
     \<Rightarrow> (error + 'r batch_response) \<times> event list" where
  "updateTableCellContent docs documentId tableStartIndex rowIndex columnIndex newContent =
     (case getTableCellRange docs documentId tableStartIndex rowIndex columnIndex of
        (Inl err, events) \<Rightarrow> (Inl err, events)
      | (Inr None, events) \<Rightarrow>
          (Inl (UserError (CouldNotFindCell rowIndex columnIndex tableStartIndex)), events)
      | (Inr (Some cellRange), events) \<Rightarrow>
          (let result = executeBatchUpdate docs documentId
                          (cellContentRequests cellRange newContent)
           in (fst result, events @ snd result)))"


section \<open>insertInlineImage\<close>

text \<open>
  The regular expressions of the private-address list, and a matcher for them by
  derivatives. \<open>Plus r\<close> is \<open>r+\<close>, \<open>OneOf cs\<close> a character class, \<open>digit\<close> is \<open>\d\<close>.
\<close>

datatype regex =
    Never
  | Empty
  | Lit char
  | OneOf "char list"
  | Seq regex regex
  | Alt regex regex
  | Star regex

definition Plus :: "regex \<Rightarrow> regex" where
  "Plus r = Seq r (Star r)"

definition digit :: regex where
  "digit = OneOf ''0123456789''"

fun Str :: "string \<Rightarrow> regex" where
  "Str [] = Empty"
| "Str (c # cs) = Seq (Lit c) (Str cs)"

fun Seqs :: "regex list \<Rightarrow> regex" where
  "Seqs [] = Empty"
| "Seqs (r # rs) = Seq r (Seqs rs)"

fun nullable :: "regex \<Rightarrow> bool" where
  "nullable Never = False"
| "nullable Empty = True"
| "nullable (Lit c) = False"
| "nullable (OneOf cs) = False"
| "nullable (Seq r s) = (nullable r \<and> nullable s)"
| "nullable (Alt r s) = (nullable r \<or> nullable s)"
| "nullable (Star r) = True"

fun deriv :: "char \<Rightarrow> regex \<Rightarrow> regex" where
  "deriv c Never = Never"
| "deriv c Empty = Never"
| "deriv c (Lit a) = (if a = c then Empty else Never)"
| "deriv c (OneOf cs) = (if c \<in> set cs then Empty else Never)"
| "deriv c (Seq r s) =
     (if nullable r then Alt (Seq (deriv c r) s) (deriv c s) else Seq (deriv c r) s)"
| "deriv c (Alt r s) = Alt (deriv c r) (deriv c s)"
| "deriv c (Star r) = Seq (deriv c r) (Star r)"

text \<open>\<open>/^r$/.test(str)\<close> and \<open>/^r/.test(str)\<close>.\<close>

fun matchesWhole :: "regex \<Rightarrow> string \<Rightarrow> bool" where
  "matchesWhole r [] = nullable r"
| "matchesWhole r (c # cs) = matchesWhole (deriv c r) cs"

fun matchesPrefix :: "regex \<Rightarrow> string \<Rightarrow> bool" where
  "matchesPrefix r [] = nullable r"
| "matchesPrefix r (c # cs) = (nullable r \<or> matchesPrefix (deriv c r) cs)"

text \<open>
  The \<open>i\<close> flag: the letters of the patterns that carry it are lower-case ASCII, so the
  subject is lower-cased before it is matched.
\<close>

definition toLowerCase_char :: "char \<Rightarrow> char" where
  "toLowerCase_char c =
     (case map_of (zip ''ABCDEFGHIJKLMNOPQRSTUVWXYZ'' ''abcdefghijklmnopqrstuvwxyz'') c of
        None \<Rightarrow> c | Some l \<Rightarrow> l)"

definition toLowerCase :: "string \<Rightarrow> string" where
  "toLowerCase str = map toLowerCase_char str"

text \<open>The list \<open>privateRanges\<close>, in the order of the source, as tests on the hostname.\<close>

definition privateRanges :: "(string \<Rightarrow> bool) list" where
  "privateRanges =
     [\<lambda>h. matchesWhole (Str ''localhost'') (toLowerCase h),
      matchesWhole (Seqs [Str ''127'', Lit CHR ''.'', Plus digit, Lit CHR ''.'', Plus digit,
                          Lit CHR ''.'', Plus digit]),
      matchesWhole (Seqs [Str ''10'', Lit CHR ''.'', Plus digit, Lit CHR ''.'', Plus digit,
                          Lit CHR ''.'', Plus digit]),
      matchesWhole (Seqs [Str ''172'', Lit CHR ''.'',
                          Alt (Seq (Lit CHR ''1'') (OneOf ''6789''))
                            (Alt (Seq (Lit CHR ''2'') digit) (Seq (Lit CHR ''3'') (OneOf ''01''))),
                          Lit CHR ''.'', Plus digit, Lit CHR ''.'', Plus digit]),
      matchesWhole (Seqs [Str ''192'', Lit CHR ''.'', Str ''168'', Lit CHR ''.'', Plus digit,
                          Lit CHR ''.'', Plus digit]),
      matchesWhole (Seqs [Str ''169'', Lit CHR ''.'', Str ''254'', Lit CHR ''.'', Plus digit,
                          Lit CHR ''.'', Plus digit]),
      matchesWhole (Str ''0.0.0.0''),
      matchesWhole (Str ''[::1]''),
      \<lambda>h. matchesPrefix (Str ''[fe80:'') (toLowerCase h),
      \<lambda>h. matchesPrefix (Str ''[fc00:'') (toLowerCase h)]"

text \<open>
  \<open>new URL(imageUrl)\<close> is the runtime's URL parser; the function takes it as the argument
  \<open>URL\<close>, \<open>None\<close> where the constructor throws. Of the parsed URL the function reads
  \<open>protocol\<close> and \<open>hostname\<close>. The \<open>objectSize\<close> of the request is the pair of the height
  and the width, present when both are given and not zero.
\<close>

record parsed_url =
  protocol :: string
  hostname :: string

definition insertInlineImage ::
  "(string \<Rightarrow> parsed_url option) \<Rightarrow> 'r docs \<Rightarrow> string \<Rightarrow> string \<Rightarrow> int
     \<Rightarrow> real option \<Rightarrow> real option \<Rightarrow> (error + 'r batch_response) \<times> event list" where
  "insertInlineImage URL docs documentId imageUrl index width height =
     (case URL imageUrl of
        None \<Rightarrow> (Inl (UserError (InvalidImageUrl imageUrl)), [])
      | Some parsedUrl \<Rightarrow>
          (if protocol parsedUrl \<noteq> ''http:'' \<and> protocol parsedUrl \<noteq> ''https:''
           then (Inl (UserError (ProtocolNotSupported (protocol parsedUrl))), [])
           else if list_ex (\<lambda>pattern. pattern (hostname parsedUrl)) privateRanges
           then (Inl (UserError (PrivateAddressNotAllowed (hostname parsedUrl))), [])
           else
             executeBatchUpdate docs documentId
               [InsertInlineImage index imageUrl
                  (case (width, height) of
                     (Some w, Some h) \<Rightarrow> (if w \<noteq> 0 \<and> h \<noteq> 0 then Some (h, w) else None)
                   | _ \<Rightarrow> None)]))"


section \<open>Notions used to state the properties\<close>

text \<open>
  The summed text length of a segment list, and the running offset of the mapping loop:
  the position in the full text at which the \<open>k\<close>-th segment of the list begins.
\<close>

definition textLength :: "segment list \<Rightarrow> nat" where
  "textLength segs = sum_list (map (\<lambda>g. length (seg_text g)) segs)"

definition reconStart :: "segment list \<Rightarrow> nat \<Rightarrow> int" where
  "reconStart segs k = int (textLength (take k segs))"

text \<open>
  The occurrences of \<open>t\<close> in \<open>s\<close> at or after a position, from left to right, overlapping
  ones included; whether the mapping loop maps a hit; and the walk of the search loop
  written over the list of occurrences: skip \<open>n\<close> of them, then return the mapping of the
  first that maps.
\<close>

definition occurrencesFrom :: "string \<Rightarrow> string \<Rightarrow> nat \<Rightarrow> nat list" where
  "occurrencesFrom s t position = filter (occursAt s t) [position ..< Suc (length s)]"

definition mapHit :: "segment list \<Rightarrow> string \<Rightarrow> nat \<Rightarrow> int \<times> int" where
  "mapHit segs t h = mapToDocument segs (int h) (int h + int (length t)) 0 (-1) (-1)"

definition mappable :: "segment list \<Rightarrow> string \<Rightarrow> nat \<Rightarrow> bool" where
  "mappable segs t h = (fst (mapHit segs t h) \<noteq> -1 \<and> snd (mapHit segs t h) \<noteq> -1)"

fun scanHits :: "segment list \<Rightarrow> string \<Rightarrow> nat \<Rightarrow> nat list \<Rightarrow> resolved_range option" where
  "scanHits segs t n [] = None"
| "scanHits segs t (Suc n) (h # hs) = scanHits segs t n hs"
| "scanHits segs t 0 (h # hs) =
     (if mappable segs t h
      then Some \<lparr>range_startIndex = fst (mapHit segs t h), range_endIndex = snd (mapHit segs t h)\<rparr>
      else scanHits segs t 0 hs)"

definition collected_ok :: "collector \<Rightarrow> bool" where
  "collected_ok acc = (length (fst acc) = textLength (snd acc))"

text \<open>
  The properties of a style intent in the order the builder reads them, whether an
  intent sets a property, and the entry the builder pushes onto the field mask for it:
  the property's own name, except for the font family and the link.
\<close>

datatype style_property =
    Bold | Italic | Underline | Strikethrough | FontSize | FontFamily
  | ForegroundColor | BackgroundColor | LinkUrl

definition allStyleProperties :: "style_property list" where
  "allStyleProperties =
     [Bold, Italic, Underline, Strikethrough, FontSize, FontFamily,
      ForegroundColor, BackgroundColor, LinkUrl]"

fun isSet :: "text_style_args \<Rightarrow> style_property \<Rightarrow> bool" where
  "isSet style Bold = (bold style \<noteq> None)"
| "isSet style Italic = (italic style \<noteq> None)"
| "isSet style Underline = (underline style \<noteq> None)"
| "isSet style Strikethrough = (strikethrough style \<noteq> None)"
| "isSet style FontSize = (fontSize style \<noteq> None)"
| "isSet style FontFamily = (fontFamily style \<noteq> None)"
| "isSet style ForegroundColor = (foregroundColor style \<noteq> None)"
| "isSet style BackgroundColor = (backgroundColor style \<noteq> None)"
| "isSet style LinkUrl = (linkUrl style \<noteq> None)"

fun maskEntry :: "style_property \<Rightarrow> string" where
  "maskEntry Bold = ''bold''"
| "maskEntry Italic = ''italic''"
| "maskEntry Underline = ''underline''"
| "maskEntry Strikethrough = ''strikethrough''"
| "maskEntry FontSize = ''fontSize''"
| "maskEntry FontFamily = ''weightedFontFamily''"
| "maskEntry ForegroundColor = ''foregroundColor''"
| "maskEntry BackgroundColor = ''backgroundColor''"
| "maskEntry LinkUrl = ''link''"


text \<open>
  The decimal text of a number, the textual form \<open>a.b.c.d\<close> of an IPv4 address, and the
  loopback, private and link-local IPv4 ranges: 127/8, 10/8, 172.16/12, 192.168/16 and
  169.254/16.
\<close>

definition decimalDigits :: string where
  "decimalDigits = ''0123456789''"

fun decimal :: "nat \<Rightarrow> string" where
  "decimal n =
     (if n < 10 then [decimalDigits ! n]
      else decimal (n div 10) @ [decimalDigits ! (n mod 10)])"

declare decimal.simps [simp del]

definition dottedQuad :: "nat \<Rightarrow> nat \<Rightarrow> nat \<Rightarrow> nat \<Rightarrow> string" where
  "dottedQuad a b c d = decimal a @ ''.'' @ decimal b @ ''.'' @ decimal c @ ''.'' @ decimal d"

definition privateIPv4 :: "nat \<Rightarrow> nat \<Rightarrow> nat \<Rightarrow> nat \<Rightarrow> bool" where
  "privateIPv4 a b c d =
     (a = 127 \<or> a = 10 \<or> (a = 172 \<and> 16 \<le> b \<and> b \<le> 31) \<or> (a = 192 \<and> b = 168)
      \<or> (a = 169 \<and> b = 254))"


section \<open>Documents and services used as examples\<close>

definition run :: "string \<Rightarrow> int \<Rightarrow> int \<Rightarrow> paragraph_element" where
  "run content s e = \<lparr>pe_startIndex = Some s, pe_endIndex = Some e, pe_content = Some content\<rparr>"

text \<open>A service that accepts every batch and serves the given document body.\<close>

definition serving :: "structural_element list option \<Rightarrow> unit docs" where
  "serving body =
     \<lparr>documents_get = (\<lambda>_. Inr body), documents_batchUpdate = (\<lambda>_ _. Inr ())\<rparr>"

definition accepting_docs :: "unit docs" where
  "accepting_docs = serving None"

text \<open>
  A service that rejects every batch with the code 400 and one detail that has no
  description.
\<close>

definition rejecting_docs :: "unit docs" where
  "rejecting_docs =
     \<lparr>documents_get = (\<lambda>_. Inr None),
      documents_batchUpdate =
        (\<lambda>_ _. Inl \<lparr>code = Some 400, message = ''Invalid requests[0]'',
                      details = Some [\<lparr>detail_description = None,
                                       detail_json = ''{reason:too many requests}''\<rparr>]\<rparr>)\<rparr>"

text \<open>A URL parser known at one URL, where it gives the stated parts.\<close>

definition parsesTo :: "string \<Rightarrow> parsed_url \<Rightarrow> string \<Rightarrow> parsed_url option" where
  "parsesTo url parsed = (\<lambda>u. if u = url then Some parsed else None)"

text \<open>One paragraph with one text run, at document index 1.\<close>

definition hello_document :: "structural_element list" where
  "hello_document =
     [StructuralElement (Some 1) (Some 26)
        (Some [run ''Hello world. Hello again.'' 1 26]) None]"

text \<open>Two text runs that claim the same start index.\<close>

definition overlapping_document :: "structural_element list" where
  "overlapping_document =
     [StructuralElement (Some 1) (Some 3) (Some [run ''ab'' 1 3, run ''cd'' 1 3]) None]"


text \<open>
  A table of two rows and three columns at index 2, indexed as the service does: every
  cell holds one paragraph that ends in a newline, and cell (1,2) holds \<open>X\<close> before it.
\<close>

definition emptyCell :: "int \<Rightarrow> table_cell" where
  "emptyCell s =
     TableCell (Some s) (Some (s + 2))
       [StructuralElement (Some (s + 1)) (Some (s + 2))
          (Some [run [CHR 0x0A] (s + 1) (s + 2)]) None]"

definition table_document :: "structural_element list" where
  "table_document =
     [StructuralElement (Some 1) (Some 2) (Some [run [CHR 0x0A] 1 2]) None,
      StructuralElement (Some 2) (Some 19) None
        (Some [[emptyCell 4, emptyCell 6, emptyCell 8],
               [emptyCell 11, emptyCell 13,
                TableCell (Some 15) (Some 18)
                  [StructuralElement (Some 16) (Some 18)
                     (Some [run (''X'' @ [CHR 0x0A]) 16 18]) None]]])]"

text \<open>A table whose second row has more cells than its first.\<close>

definition ragged_document :: "structural_element list" where
  "ragged_document =
     [StructuralElement (Some 2) (Some 16) None
        (Some [[emptyCell 4, emptyCell 6],
               [emptyCell 9, emptyCell 11, emptyCell 13]])]"

definition single_letter_document :: "structural_element list" where
  "single_letter_document =
     [StructuralElement (Some 1) (Some 2) (Some [run ''a'' 1 2]) None]"


section \<open>Properties of executeBatchUpdate\<close>

lemma executeBatchUpdate_empty:
  "executeBatchUpdate docs documentId [] = (Inr EmptyResponse, [])"
  by (simp add: executeBatchUpdate_def)

lemma executeBatchUpdate_events:
  "requests \<noteq> [] \<Longrightarrow>
   snd (executeBatchUpdate docs documentId requests) =
     (if length requests > MAX_BATCH_UPDATE_REQUESTS
      then [BatchSizeWarning (length requests)] else [])
     @ [BatchUpdateCall documentId requests]"
  by (simp add: executeBatchUpdate_def Let_def split: sum.splits)

lemma executeBatchUpdate_result:
  "requests \<noteq> [] \<Longrightarrow>
   fst (executeBatchUpdate docs documentId requests) =
     (case documents_batchUpdate docs documentId requests of
        Inr data \<Rightarrow> Inr (ResponseData data)
      | Inl err \<Rightarrow> Inl (translateBatchUpdateError documentId err))"
  by (simp add: executeBatchUpdate_def Let_def split: sum.splits)

lemma includes_invalid_requests: "includes_str ''Invalid requests[0]'' ''Invalid requests''"
  by code_simp

text \<open>
  A batch of 51 requests that the service rejects with a detail without description: the
  error thrown names the detail by its JSON text.
\<close>

lemma oversized_batch_rejected_by_the_service:
  "executeBatchUpdate rejecting_docs ''doc'' (replicate 51 (InsertText 1 ''x'')) =
     (Inl (UserError (InvalidRequestSent ''{reason:too many requests}'')),
      [BatchSizeWarning 51, BatchUpdateCall ''doc'' (replicate 51 (InsertText 1 ''x''))])"
  by (simp add: executeBatchUpdate_def rejecting_docs_def translateBatchUpdateError_def
        includes_invalid_requests detailText_def MAX_BATCH_UPDATE_REQUESTS_def Let_def)

text \<open>
  Claim C1, as the source has it. A batch with more requests than
  \<open>MAX_BATCH_UPDATE_REQUESTS\<close> (50) is not rejected: \<open>executeBatchUpdate\<close> logs one
  warning and then submits the whole batch in a single \<open>batchUpdate\<close> call, and its
  outcome is the service's answer (or the translation of the service's error). The empty
  batch is a success without any call.
\<close>

theorem executeBatchUpdate_oversized_is_submitted:
  "executeBatchUpdate docs documentId [] = (Inr EmptyResponse, [])
   \<and> (length requests > MAX_BATCH_UPDATE_REQUESTS \<longrightarrow>
        snd (executeBatchUpdate docs documentId requests) =
          [BatchSizeWarning (length requests), BatchUpdateCall documentId requests]
        \<and> fst (executeBatchUpdate docs documentId requests) =
          (case documents_batchUpdate docs documentId requests of
             Inr data \<Rightarrow> Inr (ResponseData data)
           | Inl err \<Rightarrow> Inl (translateBatchUpdateError documentId err)))"
proof -
  have "requests \<noteq> []" if "length requests > MAX_BATCH_UPDATE_REQUESTS"
    using that by auto
  then show ?thesis
    by (simp add: executeBatchUpdate_empty executeBatchUpdate_events executeBatchUpdate_result)
qed

theorem executeBatchUpdate_oversized_is_submitted_witness:
  "length (replicate 60 (InsertText 1 ''x'')) > MAX_BATCH_UPDATE_REQUESTS
   \<and> snd (executeBatchUpdate accepting_docs ''doc'' (replicate 60 (InsertText 1 ''x''))) =
       [BatchSizeWarning 60, BatchUpdateCall ''doc'' (replicate 60 (InsertText 1 ''x''))]
   \<and> fst (executeBatchUpdate accepting_docs ''doc'' (replicate 60 (InsertText 1 ''x''))) =
       Inr (ResponseData ())"
proof -
  have big: "length (replicate 60 (InsertText 1 ''x'')) > MAX_BATCH_UPDATE_REQUESTS"
    by (simp add: MAX_BATCH_UPDATE_REQUESTS_def)
  from executeBatchUpdate_oversized_is_submitted
         [of accepting_docs "''doc''" "replicate 60 (InsertText 1 ''x'')"] big
  show ?thesis
    by (simp add: accepting_docs_def serving_def)
qed

text \<open>
  Claim C1 as stated fails: a batch of 51 requests is not rejected before submission. It
  reaches the service, which here accepts it, and the call succeeds.
\<close>

theorem batch_of_51_is_not_rejected:
  "executeBatchUpdate accepting_docs ''doc'' (replicate 51 (InsertText 1 ''x'')) =
     (Inr (ResponseData ()),
      [BatchSizeWarning 51, BatchUpdateCall ''doc'' (replicate 51 (InsertText 1 ''x''))])"
  by (simp add: executeBatchUpdate_def accepting_docs_def serving_def
        MAX_BATCH_UPDATE_REQUESTS_def)

section \<open>Properties of the text reconstruction\<close>

lemma textLength_Cons: "textLength (seg # segs) = length (seg_text seg) + textLength segs"
  by (simp add: textLength_def)

lemma textLength_append: "textLength (xs @ ys) = textLength xs + textLength ys"
  by (simp add: textLength_def)

lemma collectParagraphElement_ok:
  "collected_ok acc \<Longrightarrow> collected_ok (collectParagraphElement pe acc)"
  by (auto simp: collectParagraphElement_def collected_ok_def textLength_def
           split: option.splits)

lemma foldl_collectParagraphElement_ok:
  "collected_ok acc \<Longrightarrow>
   collected_ok (foldl (\<lambda>a pe. collectParagraphElement pe a) acc elements)"
  by (induction elements arbitrary: acc) (simp_all add: collectParagraphElement_ok)

lemma collect_ok:
  "collected_ok acc \<Longrightarrow> collected_ok (collectTextFromContent content acc)"
  "collected_ok acc \<Longrightarrow> collected_ok (collectElement element acc)"
  "collected_ok acc \<Longrightarrow> collected_ok (collectRows rows acc)"
  "collected_ok acc \<Longrightarrow> collected_ok (collectCells cells acc)"
proof (induction content acc and element acc and rows acc and cells acc
       rule: collectTextFromContent_collectElement_collectRows_collectCells.induct)
  case (3 s e p t acc)
  then show ?case
    by (simp add: Let_def foldl_collectParagraphElement_ok split: option.splits)
qed simp_all

lemma textLength_sort_key: "textLength (sort_key f segs) = textLength segs"
proof -
  have "sum_mset (image_mset (\<lambda>g. length (seg_text g)) (mset (sort_key f segs))) =
        sum_mset (image_mset (\<lambda>g. length (seg_text g)) (mset segs))"
    by simp
  then show ?thesis
    unfolding textLength_def by (metis mset_map sum_mset_sum_list)
qed

lemma reconstructText_length:
  "textLength (snd (reconstructText content)) = length (fst (reconstructText content))"
proof -
  have "collected_ok (collectTextFromContent content ([], []))"
    by (rule collect_ok) (simp add: collected_ok_def textLength_def)
  then show ?thesis
    by (simp add: reconstructText_def Let_def textLength_sort_key collected_ok_def)
qed

lemma reconstruct_overlapping:
  "reconstructText overlapping_document =
     (''abcd'', [\<lparr>seg_text = ''ab'', seg_start = 1, seg_end = 3\<rparr>,
                 \<lparr>seg_text = ''cd'', seg_start = 1, seg_end = 3\<rparr>])"
  by (simp add: reconstructText_def overlapping_document_def run_def
        collectParagraphElement_def Let_def)

lemma indexOf_abcd_cd: "indexOf ''abcd'' ''cd'' 0 = Some 2"
  by code_simp


section \<open>Properties of the mapping loop\<close>

lemma reconStart_0: "reconStart segs 0 = 0"
  by (simp add: reconStart_def textLength_def)

lemma reconStart_Suc:
  "reconStart (seg # segs) (Suc k) = int (length (seg_text seg)) + reconStart segs k"
  by (simp add: reconStart_def textLength_def)

lemma reconStart_nonneg: "0 \<le> reconStart segs k"
  by (simp add: reconStart_def)

lemma reconStart_step:
  "i < length segs \<Longrightarrow>
   reconStart segs (Suc i) = reconStart segs i + int (length (seg_text (segs ! i)))"
  by (simp add: reconStart_def take_Suc_conv_app_nth textLength_append textLength_Cons
        textLength_def)

lemma reconStart_mono: "k \<le> k' \<Longrightarrow> reconStart segs k \<le> reconStart segs k'"
proof -
  assume "k \<le> k'"
  then have "take k' segs = take k segs @ drop k (take k' segs)"
    by (metis append_take_drop_id min.absorb1 take_take)
  then have "textLength (take k' segs) =
             textLength (take k segs) + textLength (drop k (take k' segs))"
    by (metis textLength_append)
  then show ?thesis by (simp add: reconStart_def)
qed

text \<open>Once the start of the hit lies before the current segment, only the end is mapped.\<close>

lemma mapToDocument_end_only:
  "j < length segs \<Longrightarrow> targetStart < pos \<Longrightarrow>
   pos + reconStart segs j < targetEnd \<Longrightarrow>
   targetEnd \<le> pos + reconStart segs j + int (length (seg_text (segs ! j))) \<Longrightarrow>
   mapToDocument segs targetStart targetEnd pos si ei =
     (si, seg_start (segs ! j) + (targetEnd - (pos + reconStart segs j)))"
proof (induction segs arbitrary: j pos)
  case Nil
  then show ?case by simp
next
  case (Cons seg segs)
  show ?case
  proof (cases j)
    case 0
    with Cons.prems show ?thesis by (simp add: reconStart_0 Let_def)
  next
    case (Suc j')
    have nn: "0 \<le> reconStart segs j'" by (rule reconStart_nonneg)
    from Cons.prems Suc have
      a: "j' < length segs" and
      b: "targetStart < pos + int (length (seg_text seg))" and
      c: "(pos + int (length (seg_text seg))) + reconStart segs j' < targetEnd" and
      d: "targetEnd \<le> (pos + int (length (seg_text seg))) + reconStart segs j'
            + int (length (seg_text (segs ! j')))"
      by (simp_all add: reconStart_Suc add.assoc)
    from c nn have e: "\<not> targetEnd \<le> pos + int (length (seg_text seg))" by linarith
    from Cons.prems(2) have f: "\<not> pos \<le> targetStart" by simp
    show ?thesis
      using Cons.IH[OF a b c d] e f Suc by (simp add: Let_def reconStart_Suc add.assoc)
  qed
qed

lemma mapToDocument_both:
  "i \<le> j \<Longrightarrow> j < length segs \<Longrightarrow>
   pos + reconStart segs i \<le> targetStart \<Longrightarrow>
   targetStart < pos + reconStart segs i + int (length (seg_text (segs ! i))) \<Longrightarrow>
   pos + reconStart segs j < targetEnd \<Longrightarrow>
   targetEnd \<le> pos + reconStart segs j + int (length (seg_text (segs ! j))) \<Longrightarrow>
   mapToDocument segs targetStart targetEnd pos (-1) ei =
     (seg_start (segs ! i) + (targetStart - (pos + reconStart segs i)),
      seg_start (segs ! j) + (targetEnd - (pos + reconStart segs j)))"
proof (induction segs arbitrary: i j pos)
  case Nil
  then show ?case by simp
next
  case (Cons seg segs)
  show ?case
  proof (cases i)
    case i0: 0
    show ?thesis
    proof (cases j)
      case 0
      with i0 Cons.prems show ?thesis by (simp add: reconStart_0 Let_def)
    next
      case (Suc j')
      have nn: "0 \<le> reconStart segs j'" by (rule reconStart_nonneg)
      from Cons.prems Suc i0 have
        a: "j' < length segs" and
        b: "targetStart < pos + int (length (seg_text seg))" and
        c: "(pos + int (length (seg_text seg))) + reconStart segs j' < targetEnd" and
        d: "targetEnd \<le> (pos + int (length (seg_text seg))) + reconStart segs j'
              + int (length (seg_text (segs ! j')))" and
        s: "pos \<le> targetStart"
        by (simp_all add: reconStart_Suc reconStart_0 add.assoc)
      from c nn have e: "\<not> targetEnd \<le> pos + int (length (seg_text seg))" by linarith
      show ?thesis
        using mapToDocument_end_only[OF a b c d] e s b Suc i0
        by (simp add: Let_def reconStart_Suc reconStart_0 add.assoc)
    qed
  next
    case (Suc i')
    then obtain j' where j: "j = Suc j'" using Cons.prems(1) by (cases j) auto
    have nn: "0 \<le> reconStart segs j'" "0 \<le> reconStart segs i'"
      by (rule reconStart_nonneg)+
    from Cons.prems Suc j have
      o: "i' \<le> j'" and
      a: "j' < length segs" and
      b1: "(pos + int (length (seg_text seg))) + reconStart segs i' \<le> targetStart" and
      b2: "targetStart < (pos + int (length (seg_text seg))) + reconStart segs i'
             + int (length (seg_text (segs ! i')))" and
      c: "(pos + int (length (seg_text seg))) + reconStart segs j' < targetEnd" and
      d: "targetEnd \<le> (pos + int (length (seg_text seg))) + reconStart segs j'
            + int (length (seg_text (segs ! j')))"
      by (simp_all add: reconStart_Suc add.assoc)
    from c nn have e: "\<not> targetEnd \<le> pos + int (length (seg_text seg))" by linarith
    from b1 nn have f: "\<not> targetStart < pos + int (length (seg_text seg))" by linarith
    show ?thesis
      using Cons.IH[OF o a b1 b2 c d] e f Suc j
      by (simp add: Let_def reconStart_Suc add.assoc)
  qed
qed

lemma containing_order:
  assumes "hitStart < hitEnd" "i < length segs" "j < length segs"
    "reconStart segs i \<le> hitStart"
    "hitEnd \<le> reconStart segs j + int (length (seg_text (segs ! j)))"
  shows "i \<le> j"
proof (rule ccontr)
  assume "\<not> i \<le> j"
  then have "Suc j \<le> i" by simp
  then have "reconStart segs (Suc j) \<le> reconStart segs i" by (rule reconStart_mono)
  with reconStart_step[OF assms(3)] assms show False by linarith
qed

lemma mapToDocument_hit:
  assumes "hitStart < hitEnd" "i < length segs" "j < length segs"
    "reconStart segs i \<le> hitStart"
    "hitStart < reconStart segs i + int (length (seg_text (segs ! i)))"
    "reconStart segs j < hitEnd"
    "hitEnd \<le> reconStart segs j + int (length (seg_text (segs ! j)))"
  shows "mapToDocument segs hitStart hitEnd 0 (-1) (-1) =
     (seg_start (segs ! i) + (hitStart - reconStart segs i),
      seg_start (segs ! j) + (hitEnd - reconStart segs j))"
  using mapToDocument_both[of i j segs 0 hitStart hitEnd "-1"]
    containing_order[OF assms(1,2,3,4,7)] assms by simp

lemma segment_containing_start:
  "0 \<le> x \<Longrightarrow> x < int (textLength segs) \<Longrightarrow>
   \<exists>i<length segs. reconStart segs i \<le> x
      \<and> x < reconStart segs i + int (length (seg_text (segs ! i)))"
proof (induction segs arbitrary: x)
  case Nil
  then show ?case by (simp add: textLength_def)
next
  case (Cons seg segs)
  show ?case
  proof (cases "x < int (length (seg_text seg))")
    case True
    with Cons.prems have "reconStart (seg # segs) 0 \<le> x
       \<and> x < reconStart (seg # segs) 0 + int (length (seg_text ((seg # segs) ! 0)))"
      by (simp add: reconStart_0)
    then show ?thesis by blast
  next
    case False
    with Cons.prems have "0 \<le> x - int (length (seg_text seg))"
      "x - int (length (seg_text seg)) < int (textLength segs)"
      by (simp_all add: textLength_Cons)
    from Cons.IH[OF this] obtain i where i: "i < length segs"
      "reconStart segs i \<le> x - int (length (seg_text seg))"
      "x - int (length (seg_text seg)) < reconStart segs i + int (length (seg_text (segs ! i)))"
      by blast
    then have "Suc i < length (seg # segs) \<and> reconStart (seg # segs) (Suc i) \<le> x
       \<and> x < reconStart (seg # segs) (Suc i) + int (length (seg_text ((seg # segs) ! Suc i)))"
      by (simp add: reconStart_Suc)
    then show ?thesis by blast
  qed
qed

lemma segment_containing_end:
  "0 < y \<Longrightarrow> y \<le> int (textLength segs) \<Longrightarrow>
   \<exists>j<length segs. reconStart segs j < y
      \<and> y \<le> reconStart segs j + int (length (seg_text (segs ! j)))"
proof (induction segs arbitrary: y)
  case Nil
  then show ?case by (simp add: textLength_def)
next
  case (Cons seg segs)
  show ?case
  proof (cases "y \<le> int (length (seg_text seg))")
    case True
    with Cons.prems have "reconStart (seg # segs) 0 < y
       \<and> y \<le> reconStart (seg # segs) 0 + int (length (seg_text ((seg # segs) ! 0)))"
      by (simp add: reconStart_0)
    then show ?thesis by blast
  next
    case False
    with Cons.prems have "0 < y - int (length (seg_text seg))"
      "y - int (length (seg_text seg)) \<le> int (textLength segs)"
      by (simp_all add: textLength_Cons)
    from Cons.IH[OF this] obtain j where j: "j < length segs"
      "reconStart segs j < y - int (length (seg_text seg))"
      "y - int (length (seg_text seg)) \<le> reconStart segs j + int (length (seg_text (segs ! j)))"
      by blast
    then have "Suc j < length (seg # segs) \<and> reconStart (seg # segs) (Suc j) < y
       \<and> y \<le> reconStart (seg # segs) (Suc j) + int (length (seg_text ((seg # segs) ! Suc j)))"
      by (simp add: reconStart_Suc)
    then show ?thesis by blast
  qed
qed

lemma occursAt_bound: "t \<noteq> [] \<Longrightarrow> occursAt s t k \<Longrightarrow> k + length t \<le> length s"
proof -
  assume t: "t \<noteq> []" and o: "occursAt s t k"
  from o have "length (take (length t) (drop k s)) = length t"
    by (simp add: occursAt_def)
  then have "length t \<le> length s - k" by simp
  moreover from this t have "k < length s" by (cases "k < length s") auto
  ultimately show ?thesis by simp
qed

text \<open>
  With non-negative segment starts, every occurrence of a non-empty text is mapped at both
  ends, so neither result is the marker \<open>-1\<close>.
\<close>

lemma hit_mappable:
  assumes t: "t \<noteq> []" and occ: "occursAt s t h" and len: "length s = textLength segs"
    and nonneg: "\<forall>g \<in> set segs. 0 \<le> seg_start g"
  shows "mappable segs t h"
proof -
  from occursAt_bound[OF t occ] have b: "h + length t \<le> length s" .
  from t have tl: "0 < length t" by simp
  have x: "0 \<le> int h" "int h < int (textLength segs)" using b tl len by linarith+
  have y: "0 < int h + int (length t)" "int h + int (length t) \<le> int (textLength segs)"
    using b tl len by linarith+
  from segment_containing_start[OF x] obtain i where i: "i < length segs"
    "reconStart segs i \<le> int h" "int h < reconStart segs i + int (length (seg_text (segs ! i)))"
    by blast
  from segment_containing_end[OF y] obtain j where j: "j < length segs"
    "reconStart segs j < int h + int (length t)"
    "int h + int (length t) \<le> reconStart segs j + int (length (seg_text (segs ! j)))"
    by blast
  have lt: "int h < int h + int (length t)" using tl by simp
  note m = mapToDocument_hit[OF lt i(1) j(1) i(2) i(3) j(2) j(3)]
  from nonneg i(1) j(1) have "0 \<le> seg_start (segs ! i)" "0 \<le> seg_start (segs ! j)"
    by simp_all
  with m i j show ?thesis by (simp add: mappable_def mapHit_def)
qed


section \<open>Properties of the search loop\<close>

lemma find_upt_None:
  "List.find P [a..<b] = None \<Longrightarrow> filter P [a..<b] = []"
  by (simp add: find_None_iff filter_empty_conv)

lemma find_upt_Some:
  assumes "List.find P [a..<b] = Some k"
  shows "a \<le> k \<and> k < b \<and> P k \<and> filter P [a..<b] = k # filter P [Suc k..<b]"
proof -
  from assms obtain i where i: "i < length [a..<b]" "P ([a..<b] ! i)" "k = [a..<b] ! i"
    "\<forall>j<i. \<not> P ([a..<b] ! j)"
    unfolding find_Some_iff by blast
  then have k: "k = a + i" "a + i < b" by auto
  have "[a..<b] = [a..<k] @ [k..<b]"
    using k upt_add_eq_append[of a k "b - k"] by simp
  then have split: "[a..<b] = [a..<k] @ k # [Suc k..<b]"
    using k by (simp add: upt_conv_Cons)
  have "\<not> P m" if "m \<in> set [a..<k]" for m
  proof -
    from that have "a \<le> m" "m < a + i" using k by auto
    then obtain j where "m = a + j" "j < i" by (metis add_less_cancel_left le_Suc_ex)
    with i(4) i(1) show ?thesis by auto
  qed
  then have "filter P [a..<k] = []" by (simp add: filter_empty_conv)
  moreover have "filter P [a..<b] = filter P [a..<k] @ filter P (k # [Suc k..<b])"
    by (subst split) simp
  ultimately show ?thesis using i k by simp
qed

lemma searchLoop_done:
  "\<not> foundCount < k \<Longrightarrow> searchLoop s segs t k foundCount pos = Some None"
  by (subst searchLoop.simps) simp

text \<open>One turn of the loop at the requested hit, when the hit maps and when it does not.\<close>

lemma searchLoop_hit_mapped:
  "foundCount + 1 = k \<Longrightarrow> indexOf s t pos = Some h \<Longrightarrow> mappable segs t h \<Longrightarrow>
   searchLoop s segs t k foundCount pos =
     Some (Some \<lparr>range_startIndex = fst (mapHit segs t h),
                 range_endIndex = snd (mapHit segs t h)\<rparr>)"
  by (subst searchLoop.simps) (auto simp: mappable_def mapHit_def Let_def)

lemma searchLoop_hit_unmapped:
  "foundCount + 1 = k \<Longrightarrow> indexOf s t pos = Some h \<Longrightarrow> \<not> mappable segs t h \<Longrightarrow>
   searchLoop s segs t k foundCount pos = searchLoop s segs t k foundCount (h + 1)"
  by (subst searchLoop.simps) (auto simp: mappable_def mapHit_def Let_def)

lemma searchLoop_hit_skipped:
  "foundCount + 1 < k \<Longrightarrow> indexOf s t pos = Some h \<Longrightarrow>
   searchLoop s segs t k foundCount pos = searchLoop s segs t k (foundCount + 1) (h + 1)"
  by (subst searchLoop.simps) simp

lemma searchLoop_exhausted:
  "foundCount < k \<Longrightarrow> indexOf s t pos = None \<Longrightarrow>
   searchLoop s segs t k foundCount pos = Some None"
  by (subst searchLoop.simps) simp

text \<open>
  For a non-empty search text the loop returns, and its result is the walk over the
  occurrences: the first \<open>k - foundCount - 1\<close> are skipped and the first one after them
  that maps is returned.
\<close>

lemma searchLoop_scan:
  assumes t: "t \<noteq> []"
  shows "pos \<le> length s \<Longrightarrow> foundCount < k \<Longrightarrow>
         searchLoop s segs t k foundCount pos =
           Some (scanHits segs t (nat (k - foundCount - 1)) (occurrencesFrom s t pos))"
proof (induction "Suc (length s) - pos" arbitrary: pos foundCount rule: less_induct)
  case less
  have min: "min pos (length s) = pos" using less.prems by simp
  show ?case
  proof (cases "indexOf s t pos")
    case None
    then have "occurrencesFrom s t pos = []"
      unfolding indexOf_def occurrencesFrom_def min by (rule find_upt_None)
    with None less.prems show ?thesis
      by (simp add: searchLoop_exhausted)
  next
    case (Some h)
    then have f: "List.find (occursAt s t) [pos..<Suc (length s)] = Some h"
      unfolding indexOf_def min .
    note fs = find_upt_Some[OF f]
    from fs have occ: "occurrencesFrom s t pos = h # occurrencesFrom s t (Suc h)"
      unfolding occurrencesFrom_def by blast
    from fs t have hlt: "h < length s" using occursAt_bound[of t s h] by (cases t) auto
    then have h1: "Suc h \<le> length s" by simp
    from fs have dec: "Suc (length s) - Suc h < Suc (length s) - pos" by linarith
    show ?thesis
    proof (cases "foundCount + 1 = k")
      case True
      then have n0: "nat (k - foundCount - 1) = 0" by simp
      show ?thesis
      proof (cases "mappable segs t h")
        case True
        with \<open>foundCount + 1 = k\<close> Some show ?thesis
          by (simp add: searchLoop_hit_mapped occ n0)
      next
        case False
        with \<open>foundCount + 1 = k\<close> Some less.hyps[OF dec h1 less.prems(2)] show ?thesis
          by (simp add: searchLoop_hit_unmapped occ n0)
      qed
    next
      case False
      with less.prems have lt: "foundCount + 1 < k" by simp
      then have nS: "nat (k - foundCount - 1) = Suc (nat (k - (foundCount + 1) - 1))"
        by simp
      show ?thesis
        using less.hyps[OF dec h1 lt] Some lt
        by (simp add: searchLoop_hit_skipped occ nS)
    qed
  qed
qed



lemma scanHits_all_mappable:
  "n < length hits \<Longrightarrow> \<forall>h \<in> set hits. mappable segs t h \<Longrightarrow>
   scanHits segs t n hits =
     Some \<lparr>range_startIndex = fst (mapHit segs t (hits ! n)),
           range_endIndex = snd (mapHit segs t (hits ! n))\<rparr>"
  by (induction segs t n hits rule: scanHits.induct) auto

lemma findTextRangeInContent_scan:
  "t \<noteq> [] \<Longrightarrow>
   findTextRangeInContent content t k =
     Some (if 0 < k
           then scanHits (snd (reconstructText content)) t (nat (k - 1))
                  (occurrencesFrom (fst (reconstructText content)) t 0)
           else None)"
  using searchLoop_scan[of t 0 "fst (reconstructText content)" 0 k "snd (reconstructText content)"]
    searchLoop_done[of 0 k "fst (reconstructText content)" "snd (reconstructText content)" t 0]
  by (simp add: findTextRangeInContent_def Let_def)

lemma occurrences_all_mappable:
  assumes "t \<noteq> []" "\<forall>g \<in> set (snd (reconstructText content)). 0 \<le> seg_start g"
  shows "\<forall>h \<in> set (occurrencesFrom (fst (reconstructText content)) t 0).
           mappable (snd (reconstructText content)) t h"
proof
  fix h assume "h \<in> set (occurrencesFrom (fst (reconstructText content)) t 0)"
  then have "occursAt (fst (reconstructText content)) t h"
    by (simp add: occurrencesFrom_def del: upt_Suc)
  with assms reconstructText_length[of content] show "mappable (snd (reconstructText content)) t h"
    by (intro hit_mappable) simp_all
qed

text \<open>
  For a document whose segment starts are not negative, the \<open>k\<close>-th occurrence of a
  non-empty text is found and mapped whenever there are at least \<open>k\<close> occurrences.
\<close>

lemma findTextRange_kth_occurrence:
  assumes "t \<noteq> []" "\<forall>g \<in> set (snd (reconstructText content)). 0 \<le> seg_start g"
    "0 < k" "nat k \<le> length (occurrencesFrom (fst (reconstructText content)) t 0)"
  shows "findTextRangeInContent content t k =
     Some (Some \<lparr>range_startIndex =
                   fst (mapHit (snd (reconstructText content)) t
                          (occurrencesFrom (fst (reconstructText content)) t 0 ! (nat k - 1))),
                 range_endIndex =
                   snd (mapHit (snd (reconstructText content)) t
                          (occurrencesFrom (fst (reconstructText content)) t 0 ! (nat k - 1)))\<rparr>)"
proof -
  from assms(3,4) have n: "nat (k - 1) < length (occurrencesFrom (fst (reconstructText content)) t 0)"
    by linarith
  have e: "nat (k - 1) = nat k - 1" by simp
  show ?thesis
    using scanHits_all_mappable[OF n occurrences_all_mappable[OF assms(1,2)]] assms(1,3)
    by (simp add: findTextRangeInContent_scan e)
qed


section \<open>The claims about findTextRange\<close>

lemma reconstruct_hello:
  "reconstructText hello_document =
     (''Hello world. Hello again.'',
      [\<lparr>seg_text = ''Hello world. Hello again.'', seg_start = 1, seg_end = 26\<rparr>])"
  by (simp add: reconstructText_def hello_document_def run_def collectParagraphElement_def
        Let_def)

lemma indexOf_hello_0: "indexOf ''Hello world. Hello again.'' ''Hello'' 0 = Some 0"
  by code_simp

lemma indexOf_hello_1: "indexOf ''Hello world. Hello again.'' ''Hello'' (Suc 0) = Some 13"
  by code_simp


lemma mapHit_hello_13:
  "mapHit [\<lparr>seg_text = ''Hello world. Hello again.'', seg_start = 1, seg_end = 26\<rparr>]
     ''Hello'' 13 = (14, 19)"
  by (simp add: mapHit_def Let_def)

lemma hello_second_instance:
  "findTextRangeInContent hello_document ''Hello'' 2 =
     Some (Some \<lparr>range_startIndex = 14, range_endIndex = 19\<rparr>)"
proof -
  have "searchLoop ''Hello world. Hello again.''
          [\<lparr>seg_text = ''Hello world. Hello again.'', seg_start = 1, seg_end = 26\<rparr>]
          ''Hello'' 2 0 0 =
        searchLoop ''Hello world. Hello again.''
          [\<lparr>seg_text = ''Hello world. Hello again.'', seg_start = 1, seg_end = 26\<rparr>]
          ''Hello'' 2 1 (Suc 0)"
    using searchLoop_hit_skipped[OF _ indexOf_hello_0, of 0 2] by simp
  also have "\<dots> = Some (Some \<lparr>range_startIndex = 14, range_endIndex = 19\<rparr>)"
    using searchLoop_hit_mapped[OF _ indexOf_hello_1, of 1 2]
    by (simp add: mappable_def mapHit_hello_13)
  finally show ?thesis
    by (simp add: findTextRangeInContent_def reconstruct_hello Let_def)
qed

text \<open>
  Claim C3, as the source has it. The segments the resolver uses are the collected ones
  in a stable sort by \<open>start\<close>: their starts are in non-decreasing order, they are the
  same segments, and the segments of one start keep the order in which they were
  collected. Their lengths sum to the length of the full text. The order is not checked
  and no failure is tied to it: once the document is fetched the search never ends in an
  error, and for a search text of at least one character it returns a result after the
  one read of the document, whatever the starts of the segments are.
\<close>

theorem reconstructText_sorted_and_complete:
  "sorted (map seg_start (snd (reconstructText content)))
   \<and> mset (snd (reconstructText content)) = mset (snd (collectTextFromContent content ([], [])))
   \<and> (\<forall>start. filter (\<lambda>g. seg_start g = start) (snd (reconstructText content)) =
                filter (\<lambda>g. seg_start g = start) (snd (collectTextFromContent content ([], []))))
   \<and> textLength (snd (reconstructText content)) = length (fst (reconstructText content))
   \<and> (documents_get docs documentId = Inr (Some content) \<longrightarrow>
        (\<forall>err events. findTextRange docs documentId textToFind k \<noteq> Some (Inl err, events))
        \<and> (textToFind \<noteq> [] \<longrightarrow>
             (\<exists>result. findTextRange docs documentId textToFind k =
                          Some (Inr result, [GetCall documentId]))))"
proof -
  have sorted: "sorted (map seg_start (snd (reconstructText content)))"
    by (simp add: reconstructText_def Let_def)
  have same: "mset (snd (reconstructText content)) =
              mset (snd (collectTextFromContent content ([], [])))"
    by (simp add: reconstructText_def Let_def)
  have stable: "filter (\<lambda>g. seg_start g = start) (snd (reconstructText content)) =
                filter (\<lambda>g. seg_start g = start) (snd (collectTextFromContent content ([], [])))"
    for start
    by (simp add: reconstructText_def Let_def sort_key_stable)
  have no_error: "findTextRange docs documentId textToFind k \<noteq> Some (Inl err, events)"
    if "documents_get docs documentId = Inr (Some content)" for err events
    using that by (auto simp: findTextRange_def)
  have returns: "\<exists>result. findTextRange docs documentId textToFind k =
                          Some (Inr result, [GetCall documentId])"
    if "documents_get docs documentId = Inr (Some content)" "textToFind \<noteq> []"
    using that by (simp add: findTextRange_def findTextRangeInContent_scan)
  from sorted same stable reconstructText_length[of content] no_error returns
  show ?thesis by blast
qed

theorem reconstructText_sorted_and_complete_witness:
  "documents_get (serving (Some overlapping_document)) ''doc'' = Inr (Some overlapping_document)
   \<and> ''ab'' \<noteq> []
   \<and> (\<exists>result. findTextRange (serving (Some overlapping_document)) ''doc'' ''ab'' 1 =
                  Some (Inr result, [GetCall ''doc'']))"
  using reconstructText_sorted_and_complete
          [of overlapping_document "serving (Some overlapping_document)" "''doc''" "''ab''" 1]
  by (simp add: serving_def)

text \<open>
  Claim C3 as stated fails: two runs with the same start index give segments that are
  not strictly increasing, and the search neither checks nor fails; it answers with a
  range.
\<close>

theorem overlapping_segments_are_used_unchecked:
  "\<not> sorted_wrt (<) (map seg_start (snd (reconstructText overlapping_document)))
   \<and> findTextRange (serving (Some overlapping_document)) ''doc'' ''cd'' 1 =
       Some (Inr (Some \<lparr>range_startIndex = 1, range_endIndex = 3\<rparr>), [GetCall ''doc''])"
proof -
  have "searchLoop ''abcd'' [\<lparr>seg_text = ''ab'', seg_start = 1, seg_end = 3\<rparr>,
                 \<lparr>seg_text = ''cd'', seg_start = 1, seg_end = 3\<rparr>] ''cd'' 1 0 0 =
        Some (Some \<lparr>range_startIndex = 1, range_endIndex = 3\<rparr>)"
    by (subst searchLoop.simps) (simp add: indexOf_abcd_cd Let_def)
  then show ?thesis
    by (simp add: findTextRange_def findTextRangeInContent_def serving_def
          reconstruct_overlapping Let_def)
qed


text \<open>
  Claim C4. The mapping loop walks the segments in order with the running offset
  \<open>reconStart\<close>. For a hit \<open>[hitStart, hitEnd)\<close>, with segment \<open>i\<close> holding \<open>hitStart\<close> and
  segment \<open>j\<close> holding \<open>hitEnd\<close> up to and including the segment's last position, it
  computes the start as \<open>seg_start\<close> of segment \<open>i\<close> plus the offset of \<open>hitStart\<close> in it and
  the end likewise from segment \<open>j\<close>, so that a hit ending at the last position of a
  segment whose indices span its text ends at that segment's end. When the search loop
  reaches the requested hit and neither value is the marker \<open>-1\<close>, that range is the
  result. For the document \<open>Hello world. Hello again.\<close> starting at index 1, the second
  \<open>Hello\<close> resolves to the start index 14 and the end index 19.
\<close>

theorem findTextRange_maps_hit_through_segments:
  "(hitStart < hitEnd \<and> i < length segs \<and> j < length segs
      \<and> reconStart segs i \<le> hitStart
      \<and> hitStart < reconStart segs i + int (length (seg_text (segs ! i)))
      \<and> reconStart segs j < hitEnd
      \<and> hitEnd \<le> reconStart segs j + int (length (seg_text (segs ! j)))
    \<longrightarrow>
      mapToDocument segs hitStart hitEnd 0 (-1) (-1) =
        (seg_start (segs ! i) + (hitStart - reconStart segs i),
         seg_start (segs ! j) + (hitEnd - reconStart segs j))
      \<and> (hitEnd = reconStart segs j + int (length (seg_text (segs ! j)))
           \<and> seg_end (segs ! j) = seg_start (segs ! j) + int (length (seg_text (segs ! j)))
         \<longrightarrow> snd (mapToDocument segs hitStart hitEnd 0 (-1) (-1)) = seg_end (segs ! j))
      \<and> (foundCount + 1 = k \<and> indexOf fullText textToFind pos = Some h
           \<and> hitStart = int h \<and> hitEnd = int h + int (length textToFind)
           \<and> seg_start (segs ! i) + (hitStart - reconStart segs i) \<noteq> -1
           \<and> seg_start (segs ! j) + (hitEnd - reconStart segs j) \<noteq> -1
         \<longrightarrow> searchLoop fullText segs textToFind k foundCount pos =
               Some (Some \<lparr>range_startIndex = seg_start (segs ! i) + (hitStart - reconStart segs i),
                           range_endIndex = seg_start (segs ! j) + (hitEnd - reconStart segs j)\<rparr>)))
   \<and> findTextRange (serving (Some hello_document)) ''doc'' ''Hello'' 2 =
       Some (Inr (Some \<lparr>range_startIndex = 14, range_endIndex = 19\<rparr>), [GetCall ''doc''])"
proof -
  have scenario: "findTextRange (serving (Some hello_document)) ''doc'' ''Hello'' 2 =
       Some (Inr (Some \<lparr>range_startIndex = 14, range_endIndex = 19\<rparr>), [GetCall ''doc''])"
    by (simp add: findTextRange_def serving_def hello_second_instance)
  have general: "mapToDocument segs hitStart hitEnd 0 (-1) (-1) =
        (seg_start (segs ! i) + (hitStart - reconStart segs i),
         seg_start (segs ! j) + (hitEnd - reconStart segs j))"
    if "hitStart < hitEnd" "i < length segs" "j < length segs"
      "reconStart segs i \<le> hitStart"
      "hitStart < reconStart segs i + int (length (seg_text (segs ! i)))"
      "reconStart segs j < hitEnd"
      "hitEnd \<le> reconStart segs j + int (length (seg_text (segs ! j)))"
    using that by (rule mapToDocument_hit)
  have emitted: "searchLoop fullText segs textToFind k foundCount pos =
       Some (Some \<lparr>range_startIndex = seg_start (segs ! i) + (hitStart - reconStart segs i),
                   range_endIndex = seg_start (segs ! j) + (hitEnd - reconStart segs j)\<rparr>)"
    if m: "mapToDocument segs hitStart hitEnd 0 (-1) (-1) =
        (seg_start (segs ! i) + (hitStart - reconStart segs i),
         seg_start (segs ! j) + (hitEnd - reconStart segs j))"
      and "foundCount + 1 = k" "indexOf fullText textToFind pos = Some h"
      and hs: "hitStart = int h" "hitEnd = int h + int (length textToFind)"
      and ne: "seg_start (segs ! i) + (hitStart - reconStart segs i) \<noteq> -1"
        "seg_start (segs ! j) + (hitEnd - reconStart segs j) \<noteq> -1"
  proof -
    from m hs have mh: "mapHit segs textToFind h =
        (seg_start (segs ! i) + (hitStart - reconStart segs i),
         seg_start (segs ! j) + (hitEnd - reconStart segs j))"
      by (simp add: mapHit_def)
    with ne have "mappable segs textToFind h" by (simp add: mappable_def)
    from searchLoop_hit_mapped[OF that(2,3) this] mh show ?thesis by simp
  qed
  have boundary: "snd (mapToDocument segs hitStart hitEnd 0 (-1) (-1)) = seg_end (segs ! j)"
    if "mapToDocument segs hitStart hitEnd 0 (-1) (-1) =
        (seg_start (segs ! i) + (hitStart - reconStart segs i),
         seg_start (segs ! j) + (hitEnd - reconStart segs j))"
      "hitEnd = reconStart segs j + int (length (seg_text (segs ! j)))"
      "seg_end (segs ! j) = seg_start (segs ! j) + int (length (seg_text (segs ! j)))"
    using that by simp
  from scenario general emitted boundary show ?thesis by blast
qed

theorem findTextRange_maps_hit_through_segments_witness:
  "(13::int) < 18
   \<and> reconStart [\<lparr>seg_text = ''Hello world. Hello again.'', seg_start = 1, seg_end = 26\<rparr>] 0 \<le> 13
   \<and> 18 \<le> reconStart [\<lparr>seg_text = ''Hello world. Hello again.'', seg_start = 1, seg_end = 26\<rparr>] 0
            + int (length ''Hello world. Hello again.'')
   \<and> mapToDocument [\<lparr>seg_text = ''Hello world. Hello again.'', seg_start = 1, seg_end = 26\<rparr>]
       13 18 0 (-1) (-1) = (14, 19)
   \<and> searchLoop ''Hello world. Hello again.''
       [\<lparr>seg_text = ''Hello world. Hello again.'', seg_start = 1, seg_end = 26\<rparr>]
       ''Hello'' 2 1 (Suc 0) = Some (Some \<lparr>range_startIndex = 14, range_endIndex = 19\<rparr>)"
  using findTextRange_maps_hit_through_segments
          [of 13 18 0 "[\<lparr>seg_text = ''Hello world. Hello again.'', seg_start = 1, seg_end = 26\<rparr>]"
              0 1 2 "''Hello world. Hello again.''" "''Hello''" "Suc 0" 13]
  by (simp add: reconStart_0 indexOf_hello_1)














lemma indexOf_empty: "indexOf s [] pos = Some (min pos (length s))"
proof -
  have "[min pos (length s)..<Suc (length s)] =
        min pos (length s) # [Suc (min pos (length s))..<Suc (length s)]"
    by (rule upt_conv_Cons) simp
  then show ?thesis
    unfolding indexOf_def by (simp add: occursAt_def del: upt_Suc)
qed

lemma map_a_0:
  "mapToDocument [\<lparr>seg_text = ''a'', seg_start = 1, seg_end = 2\<rparr>]
     0 (0 + int (length ([]::string))) 0 (-1) (-1) = (1, -1)"
  by (simp add: Let_def)

lemma map_a_1:
  "mapToDocument [\<lparr>seg_text = ''a'', seg_start = 1, seg_end = 2\<rparr>]
     1 (1 + int (length ([]::string))) 0 (-1) (-1) = (-1, 2)"
  by (simp add: Let_def)

lemma searchLoop_empty_text_never_returns:
  assumes "searchLoop s segs t k foundCount pos = Some y"
  shows "\<not> (s = ''a'' \<and> segs = [\<lparr>seg_text = ''a'', seg_start = 1, seg_end = 2\<rparr>]
            \<and> t = [] \<and> k = 1 \<and> foundCount = 0)"
  using assms
proof (induction s segs t k foundCount pos y rule: searchLoop.raw_induct[rotated 1, consumes 1])
  case (1 searchLoop s segs t k foundCount pos y)
  show ?case
  proof
    assume a: "s = ''a'' \<and> segs = [\<lparr>seg_text = ''a'', seg_start = 1, seg_end = 2\<rparr>]
            \<and> t = [] \<and> k = 1 \<and> foundCount = 0"
    have "indexOf ''a'' [] pos = Some 0 \<or> indexOf ''a'' [] pos = Some 1"
      by (cases pos) (simp_all add: indexOf_empty)
    then have "\<exists>p. searchLoop s segs t k foundCount p = Some y"
    proof
      assume "indexOf ''a'' [] pos = Some 0"
      with 1(2) a have "searchLoop s segs t k foundCount (0 + 1) = Some y"
        using map_a_0 by (simp add: Let_def)
      then show ?thesis by blast
    next
      assume "indexOf ''a'' [] pos = Some 1"
      with 1(2) a have "searchLoop s segs t k foundCount (1 + 1) = Some y"
        using map_a_1 by (simp add: Let_def)
      then show ?thesis by blast
    qed
    with 1(1) a show False by blast
  qed
qed

text \<open>
  The search text must not be empty for the search to return: on the one-letter
  document the first occurrence of the empty text maps no end, the second maps no start,
  and after that \<open>indexOf\<close> keeps answering the length of the text, so the loop goes on
  for ever.
\<close>

lemma findTextRange_empty_text_never_returns:
  "findTextRange (serving (Some single_letter_document)) ''doc'' [] 1 = None"
proof (cases "findTextRangeInContent single_letter_document [] 1")
  case None
  then show ?thesis by (simp add: findTextRange_def serving_def)
next
  case (Some y)
  then show ?thesis
    using searchLoop_empty_text_never_returns
            [of "''a''" "[\<lparr>seg_text = ''a'', seg_start = 1, seg_end = 2\<rparr>]" "[]" 1 0 0 y]
    by (simp add: findTextRangeInContent_def reconstructText_def single_letter_document_def
          run_def collectParagraphElement_def Let_def)
qed


section \<open>Properties of the table helpers\<close>

lemma findTablesInContent_append:
  "findTablesInContent (xs @ ys) = findTablesInContent xs @ findTablesInContent ys"
  by (induction xs) simp_all

lemma getTableStructureInContent_skip:
  "\<forall>el \<in> set pre. el_table el = None \<or> el_startIndex el \<noteq> Some t \<Longrightarrow>
   getTableStructureInContent (pre @ rest) t = getTableStructureInContent rest t"
  by (induction pre) (auto split: option.splits)

lemma getTableCellRangeInContent_skip:
  "\<forall>el \<in> set pre. el_table el = None \<or> el_startIndex el \<noteq> Some t \<Longrightarrow>
   getTableCellRangeInContent (pre @ rest) t r c = getTableCellRangeInContent rest t r c"
  by (induction pre) (auto split: option.splits)

text \<open>
  Claim C10. For a fetched document, wherever a table stands in the body, \<open>findTables\<close>
  reports for it the number of cells of its first row as the column count, and 0 for a
  table without rows; the later rows only count as rows. \<open>getTableStructure\<close> reports the
  same for the first table at the requested start index.
\<close>

theorem column_count_is_first_row_cell_count:
  assumes "documents_get docs documentId = Inr (Some content)"
  shows "(content = pre @ [StructuralElement (Some s) (Some e) p (Some (firstRow # laterRows))] @ post
          \<longrightarrow> findTables docs documentId =
                (Inr (findTablesInContent pre
                      @ [\<lparr>td_startIndex = s, td_endIndex = e, td_rows = Suc (length laterRows),
                          td_columns = length firstRow\<rparr>]
                      @ findTablesInContent post),
                 [GetCall documentId]))
   \<and> (content = pre @ [StructuralElement (Some s) (Some e) p (Some [])] @ post
          \<longrightarrow> findTables docs documentId =
                (Inr (findTablesInContent pre
                      @ [\<lparr>td_startIndex = s, td_endIndex = e, td_rows = 0, td_columns = 0\<rparr>]
                      @ findTablesInContent post),
                 [GetCall documentId]))
   \<and> ((\<forall>el \<in> set pre. el_table el = None \<or> el_startIndex el \<noteq> Some s)
       \<and> content = pre @ [StructuralElement (Some s) e' p (Some (firstRow # laterRows))] @ post
          \<longrightarrow> getTableStructure docs documentId s =
                (Inr (Some \<lparr>tst_startIndex = s, tst_endIndex = e',
                            tst_rows = Suc (length laterRows), tst_columns = length firstRow,
                            tst_cells = map (map cellInfo) (firstRow # laterRows)\<rparr>),
                 [GetCall documentId]))
   \<and> ((\<forall>el \<in> set pre. el_table el = None \<or> el_startIndex el \<noteq> Some s)
       \<and> content = pre @ [StructuralElement (Some s) e' p (Some [])] @ post
          \<longrightarrow> getTableStructure docs documentId s =
                (Inr (Some \<lparr>tst_startIndex = s, tst_endIndex = e', tst_rows = 0,
                            tst_columns = 0, tst_cells = []\<rparr>),
                 [GetCall documentId]))"
  using assms
  by (simp add: findTables_def getTableStructure_def findTablesInContent_append
        getTableStructureInContent_skip firstRowCellCount_def)

theorem column_count_is_first_row_cell_count_witness:
  "documents_get (serving (Some ragged_document)) ''doc'' = Inr (Some ragged_document)
   \<and> findTables (serving (Some ragged_document)) ''doc'' =
       (Inr [\<lparr>td_startIndex = 2, td_endIndex = 16, td_rows = 2, td_columns = 2\<rparr>],
        [GetCall ''doc''])
   \<and> getTableStructure (serving (Some ragged_document)) ''doc'' 2 =
       (Inr (Some \<lparr>tst_startIndex = 2, tst_endIndex = Some 16, tst_rows = 2, tst_columns = 2,
                   tst_cells = map (map cellInfo)
                     [[emptyCell 4, emptyCell 6],
                      [emptyCell 9, emptyCell 11, emptyCell 13]]\<rparr>),
        [GetCall ''doc''])"
proof -
  have get: "documents_get (serving (Some ragged_document)) ''doc'' = Inr (Some ragged_document)"
    by (simp add: serving_def)
  have split: "ragged_document =
      [] @ [StructuralElement (Some 2) (Some 16) None
              (Some ([emptyCell 4, emptyCell 6] # [[emptyCell 9, emptyCell 11, emptyCell 13]]))]
      @ []"
    by (simp add: ragged_document_def)
  from column_count_is_first_row_cell_count
         [OF get, of "[]" 2 16 None "[emptyCell 4, emptyCell 6]"
            "[[emptyCell 9, emptyCell 11, emptyCell 13]]" "[]" "Some 16"]
       get split
  show ?thesis by simp
qed


lemma getTableCellRangeInContent_at_table:
  assumes "\<forall>el \<in> set pre. el_table el = None \<or> el_startIndex el \<noteq> Some t"
  shows "getTableCellRangeInContent
           (pre @ [StructuralElement (Some t) e p (Some tableRows)] @ post) t r c =
         (if r \<ge> int (length tableRows)
          then Inl (UserError (RowOutOfBounds r (length tableRows)))
          else if r < 0 then Inl TypeError
          else if c \<ge> int (length (tableRows ! nat r))
          then Inl (UserError (ColumnOutOfBounds c (length (tableRows ! nat r))))
          else if c < 0 then Inl TypeError
          else (case (cell_startIndex (tableRows ! nat r ! nat c),
                      cell_endIndex (tableRows ! nat r ! nat c)) of
                  (Some s, Some e) \<Rightarrow> Inr (Some \<lparr>range_startIndex = s, range_endIndex = e - 1\<rparr>)
                | _ \<Rightarrow> getTableCellRangeInContent post t r c))"
  using assms by (simp add: getTableCellRangeInContent_skip Let_def)

text \<open>
  Claim C8, as the source has it. Row and column indices are 0-based, and the document
  has been fetched. At the first table with the requested start index,
  \<open>getTableCellRange\<close> ends with the out-of-bounds \<open>UserError\<close> for a row index at or
  beyond the number of rows and for a column index at or beyond the number of cells of
  the addressed row; \<open>updateTableCellContent\<close> passes that error on and submits nothing.
  The \<open>getTableCell\<close> tool ends with the same errors for a row index at or beyond the
  number of rows and for a column index at or beyond the table's column count, the number
  of cells of the first row. No index is replaced by a valid one: indices within the
  addressed row give the range of that very cell.
\<close>

theorem table_cell_lookup_out_of_bounds:
  assumes "documents_get docs documentId = Inr (Some content)"
    and "content = pre @ [StructuralElement (Some t) e p (Some tableRows)] @ post"
    and "\<forall>el \<in> set pre. el_table el = None \<or> el_startIndex el \<noteq> Some t"
  shows "(rowIndex \<ge> int (length tableRows) \<longrightarrow>
            getTableCellRange docs documentId t rowIndex columnIndex =
              (Inl (UserError (RowOutOfBounds rowIndex (length tableRows))), [GetCall documentId])
            \<and> updateTableCellContent docs documentId t rowIndex columnIndex newContent =
              (Inl (UserError (RowOutOfBounds rowIndex (length tableRows))), [GetCall documentId])
            \<and> getTableCell docs documentId t rowIndex columnIndex =
              (Inl (UserError (RowOutOfBounds rowIndex (length tableRows))), [GetCall documentId]))
     \<and> (0 \<le> rowIndex \<and> rowIndex < int (length tableRows)
        \<and> columnIndex \<ge> int (length (tableRows ! nat rowIndex)) \<longrightarrow>
            getTableCellRange docs documentId t rowIndex columnIndex =
              (Inl (UserError (ColumnOutOfBounds columnIndex (length (tableRows ! nat rowIndex)))),
               [GetCall documentId])
            \<and> updateTableCellContent docs documentId t rowIndex columnIndex newContent =
              (Inl (UserError (ColumnOutOfBounds columnIndex (length (tableRows ! nat rowIndex)))),
               [GetCall documentId]))
     \<and> (rowIndex < int (length tableRows)
        \<and> columnIndex \<ge> int (firstRowCellCount tableRows) \<longrightarrow>
            getTableCell docs documentId t rowIndex columnIndex =
              (Inl (UserError (ColumnOutOfBounds columnIndex (firstRowCellCount tableRows))),
               [GetCall documentId]))
     \<and> (0 \<le> rowIndex \<and> rowIndex < int (length tableRows)
        \<and> 0 \<le> columnIndex \<and> columnIndex < int (length (tableRows ! nat rowIndex))
        \<and> cell_startIndex (tableRows ! nat rowIndex ! nat columnIndex) = Some cellStart
        \<and> cell_endIndex (tableRows ! nat rowIndex ! nat columnIndex) = Some cellEnd \<longrightarrow>
            getTableCellRange docs documentId t rowIndex columnIndex =
              (Inr (Some \<lparr>range_startIndex = cellStart, range_endIndex = cellEnd - 1\<rparr>),
               [GetCall documentId]))"
proof -
  have range: "getTableCellRange docs documentId t rowIndex columnIndex =
     ((if rowIndex \<ge> int (length tableRows)
          then Inl (UserError (RowOutOfBounds rowIndex (length tableRows)))
          else if rowIndex < 0 then Inl TypeError
          else if columnIndex \<ge> int (length (tableRows ! nat rowIndex))
          then Inl (UserError (ColumnOutOfBounds columnIndex (length (tableRows ! nat rowIndex))))
          else if columnIndex < 0 then Inl TypeError
          else (case (cell_startIndex (tableRows ! nat rowIndex ! nat columnIndex),
                      cell_endIndex (tableRows ! nat rowIndex ! nat columnIndex)) of
                  (Some s, Some e) \<Rightarrow> Inr (Some \<lparr>range_startIndex = s, range_endIndex = e - 1\<rparr>)
                | _ \<Rightarrow> getTableCellRangeInContent post t rowIndex columnIndex)),
      [GetCall documentId])"
  proof -
    have "getTableCellRange docs documentId t rowIndex columnIndex =
            (getTableCellRangeInContent content t rowIndex columnIndex, [GetCall documentId])"
      using assms(1) by (simp add: getTableCellRange_def)
    then show ?thesis
      unfolding assms(2) getTableCellRangeInContent_at_table[OF assms(3)] .
  qed
  have update: "updateTableCellContent docs documentId t rowIndex columnIndex newContent =
             (Inl err, [GetCall documentId])"
    if "getTableCellRange docs documentId t rowIndex columnIndex = (Inl err, [GetCall documentId])"
    for err
    using that by (simp add: updateTableCellContent_def)
  have table: "getTableStructure docs documentId t =
      (Inr (Some \<lparr>tst_startIndex = t, tst_endIndex = e, tst_rows = length tableRows,
                  tst_columns = firstRowCellCount tableRows,
                  tst_cells = map (map cellInfo) tableRows\<rparr>),
       [GetCall documentId])"
    using assms(1) unfolding assms(2) getTableStructure_def
    by (simp add: getTableStructureInContent_skip[OF assms(3)])
  have tool_row: "getTableCell docs documentId t rowIndex columnIndex =
      (Inl (UserError (RowOutOfBounds rowIndex (length tableRows))), [GetCall documentId])"
    if "rowIndex \<ge> int (length tableRows)"
    using that by (simp add: getTableCell_def table)
  have tool_column: "getTableCell docs documentId t rowIndex columnIndex =
      (Inl (UserError (ColumnOutOfBounds columnIndex (firstRowCellCount tableRows))),
       [GetCall documentId])"
    if "rowIndex < int (length tableRows)" "columnIndex \<ge> int (firstRowCellCount tableRows)"
    using that by (simp add: getTableCell_def table)
  show ?thesis
    using range update tool_row tool_column by (auto simp: range)
qed

lemma table_document_split:
  "table_document =
     [StructuralElement (Some 1) (Some 2) (Some [run [CHR 0x0A] 1 2]) None]
     @ [StructuralElement (Some 2) (Some 19) None
        (Some [[emptyCell 4, emptyCell 6, emptyCell 8],
               [emptyCell 11, emptyCell 13,
                TableCell (Some 15) (Some 18)
                  [StructuralElement (Some 16) (Some 18)
                     (Some [run (''X'' @ [CHR 0x0A]) 16 18]) None]]])]
     @ []"
  by (simp add: table_document_def)

lemma table_document_structure:
  "getTableStructure (serving (Some table_document)) ''doc'' 2 =
     (Inr (getTableStructureInContent table_document 2), [GetCall ''doc''])"
  by (simp add: getTableStructure_def serving_def)

theorem table_cell_lookup_out_of_bounds_witness:
  "documents_get (serving (Some table_document)) ''doc'' = Inr (Some table_document)
   \<and> getTableCellRange (serving (Some table_document)) ''doc'' 2 2 0 =
       (Inl (UserError (RowOutOfBounds 2 2)), [GetCall ''doc''])
   \<and> getTableCellRange (serving (Some table_document)) ''doc'' 2 1 3 =
       (Inl (UserError (ColumnOutOfBounds 3 3)), [GetCall ''doc''])
   \<and> updateTableCellContent (serving (Some table_document)) ''doc'' 2 1 3 ''Y'' =
       (Inl (UserError (ColumnOutOfBounds 3 3)), [GetCall ''doc''])
   \<and> getTableCell (serving (Some table_document)) ''doc'' 2 2 0 =
       (Inl (UserError (RowOutOfBounds 2 2)), [GetCall ''doc''])
   \<and> getTableCell (serving (Some table_document)) ''doc'' 2 1 3 =
       (Inl (UserError (ColumnOutOfBounds 3 3)), [GetCall ''doc''])
   \<and> getTableCellRange (serving (Some table_document)) ''doc'' 2 1 2 =
       (Inr (Some \<lparr>range_startIndex = 15, range_endIndex = 17\<rparr>), [GetCall ''doc''])"
proof -
  let ?pre = "[StructuralElement (Some 1) (Some 2) (Some [run [CHR 0x0A] 1 2]) None]"
  let ?rows = "[[emptyCell 4, emptyCell 6, emptyCell 8],
               [emptyCell 11, emptyCell 13,
                TableCell (Some 15) (Some 18)
                  [StructuralElement (Some 16) (Some 18)
                     (Some [run (''X'' @ [CHR 0x0A]) 16 18]) None]]]"
  have pre: "\<forall>el \<in> set ?pre. el_table el = None \<or> el_startIndex el \<noteq> Some 2" by simp
  have get: "documents_get (serving (Some table_document)) ''doc'' = Inr (Some table_document)"
    by (simp add: serving_def)
  note at = table_cell_lookup_out_of_bounds[OF get table_document_split pre]
  from at[of 2 0 "''Y''" 15 18] at[of 1 3 "''Y''" 15 18] at[of 1 2 "''Y''" 15 18] get
  show ?thesis by (simp add: firstRowCellCount_def)
qed

text \<open>
  Claim C8 as stated fails: in the table whose first row has two cells and whose second
  row has three, the column count is 2, and the column index 2 in row 1 is not rejected.
  \<open>getTableCellRange\<close> answers with the range of the third cell of that row, and
  \<open>updateTableCellContent\<close> submits the insertion into it.
\<close>

theorem column_beyond_column_count_is_accepted_in_longer_row:
  "findTables (serving (Some ragged_document)) ''doc'' =
     (Inr [\<lparr>td_startIndex = 2, td_endIndex = 16, td_rows = 2, td_columns = 2\<rparr>],
      [GetCall ''doc''])
   \<and> getTableCellRange (serving (Some ragged_document)) ''doc'' 2 1 2 =
       (Inr (Some \<lparr>range_startIndex = 13, range_endIndex = 14\<rparr>), [GetCall ''doc''])
   \<and> updateTableCellContent (serving (Some ragged_document)) ''doc'' 2 1 2 ''Y'' =
       (Inr (ResponseData ()),
        [GetCall ''doc'', BatchUpdateCall ''doc'' [InsertText 14 ''Y'']])"
  by (simp add: findTables_def getTableCellRange_def updateTableCellContent_def serving_def
        ragged_document_def emptyCell_def firstRowCellCount_def cellContentRequests_def
        executeBatchUpdate_def MAX_BATCH_UPDATE_REQUESTS_def Let_def)


text \<open>
  Claim C2, as the source has it. \<open>getTableCellRange\<close> returns the cell's start index and
  its end index less one, and \<open>updateTableCellContent\<close> deletes from one past that start
  up to that end. So for a cell \<open>[s, e)\<close> with \<open>s + 1 < e - 1\<close> and a non-empty new
  content, exactly two requests are submitted, in one batch and in this order: the
  deletion of \<open>[s + 1, e - 1)\<close>, then the insertion of the new text at \<open>s + 1\<close>. The last
  index of the cell, \<open>e - 1\<close>, is not deleted.
\<close>

theorem cell_replacement_is_delete_then_insert:
  assumes "\<forall>el \<in> set pre. el_table el = None \<or> el_startIndex el \<noteq> Some t"
    and "content = pre @ [StructuralElement (Some t) e' p (Some tableRows)] @ post"
    and "documents_get docs documentId = Inr (Some content)"
    and "0 \<le> rowIndex" "rowIndex < int (length tableRows)"
    and "0 \<le> columnIndex" "columnIndex < int (length (tableRows ! nat rowIndex))"
    and "cell_startIndex (tableRows ! nat rowIndex ! nat columnIndex) = Some s"
    and "cell_endIndex (tableRows ! nat rowIndex ! nat columnIndex) = Some e"
    and "s + 1 < e - 1"
    and "newContent \<noteq> []"
  shows "snd (updateTableCellContent docs documentId t rowIndex columnIndex newContent) =
           [GetCall documentId,
            BatchUpdateCall documentId
              [DeleteContentRange (s + 1) (e - 1), InsertText (s + 1) newContent]]"
proof -
  have "getTableCellRangeInContent content t rowIndex columnIndex =
          Inr (Some \<lparr>range_startIndex = s, range_endIndex = e - 1\<rparr>)"
    using assms getTableCellRangeInContent_at_table[OF assms(1), of e' p tableRows post]
    by simp
  then have "getTableCellRange docs documentId t rowIndex columnIndex =
          (Inr (Some \<lparr>range_startIndex = s, range_endIndex = e - 1\<rparr>), [GetCall documentId])"
    using assms(3) by (simp add: getTableCellRange_def)
  moreover have "cellContentRequests \<lparr>range_startIndex = s, range_endIndex = e - 1\<rparr> newContent =
          [DeleteContentRange (s + 1) (e - 1), InsertText (s + 1) newContent]"
    using assms(10,11) by (simp add: cellContentRequests_def Let_def)
  ultimately show ?thesis
    by (simp add: updateTableCellContent_def Let_def executeBatchUpdate_events
          MAX_BATCH_UPDATE_REQUESTS_def)
qed

lemma table_document_cell_range:
  "getTableCellRange (serving (Some table_document)) ''doc'' 2 1 2 =
     (Inr (Some \<lparr>range_startIndex = 15, range_endIndex = 17\<rparr>), [GetCall ''doc''])"
  by (simp add: getTableCellRange_def serving_def table_document_def Let_def)

theorem cell_replacement_is_delete_then_insert_witness:
  "documents_get (serving (Some table_document)) ''doc'' = Inr (Some table_document)
   \<and> (15::int) + 1 < 18 - 1 \<and> ''Y'' \<noteq> []
   \<and> snd (updateTableCellContent (serving (Some table_document)) ''doc'' 2 1 2 ''Y'') =
       [GetCall ''doc'',
        BatchUpdateCall ''doc'' [DeleteContentRange (15 + 1) (18 - 1), InsertText (15 + 1) ''Y'']]"
proof -
  let ?pre = "[StructuralElement (Some 1) (Some 2) (Some [run [CHR 0x0A] 1 2]) None]"
  let ?rows = "[[emptyCell 4, emptyCell 6, emptyCell 8],
               [emptyCell 11, emptyCell 13,
                TableCell (Some 15) (Some 18)
                  [StructuralElement (Some 16) (Some 18)
                     (Some [run (''X'' @ [CHR 0x0A]) 16 18]) None]]]"
  have pre: "\<forall>el \<in> set ?pre. el_table el = None \<or> el_startIndex el \<noteq> Some 2" by simp
  have get: "documents_get (serving (Some table_document)) ''doc'' = Inr (Some table_document)"
    by (simp add: serving_def)
  from cell_replacement_is_delete_then_insert
         [of ?pre 2 table_document "Some 19" None ?rows "[]" "serving (Some table_document)"
             "''doc''" 1 2 15 18 "''Y''", OF pre table_document_split get]
  show ?thesis using get by simp
qed

text \<open>
  Claim C2 as stated fails. In the table of two rows and three columns, cell (1,2) is
  \<open>[15, 18)\<close> and holds \<open>X\<close> and the cell's closing newline. The deletion that is
  submitted is \<open>[16, 17)\<close>, the one character \<open>X\<close>; it is not \<open>[16, 18)\<close>, the range from
  one past the cell's start index to the cell's end index.
\<close>

theorem cell_replacement_does_not_delete_up_to_cell_end:
  "cell_startIndex (the (el_table (table_document ! 1)) ! 1 ! 2) = Some 15
   \<and> cell_endIndex (the (el_table (table_document ! 1)) ! 1 ! 2) = Some 18
   \<and> updateTableCellContent (serving (Some table_document)) ''doc'' 2 1 2 ''Y'' =
       (Inr (ResponseData ()),
        [GetCall ''doc'',
         BatchUpdateCall ''doc'' [DeleteContentRange 16 17, InsertText 16 ''Y'']])
   \<and> snd (updateTableCellContent (serving (Some table_document)) ''doc'' 2 1 2 ''Y'') \<noteq>
       [GetCall ''doc'',
        BatchUpdateCall ''doc'' [DeleteContentRange (15 + 1) 18, InsertText (15 + 1) ''Y'']]"
proof -
  have "updateTableCellContent (serving (Some table_document)) ''doc'' 2 1 2 ''Y'' =
       (Inr (ResponseData ()),
        [GetCall ''doc'',
         BatchUpdateCall ''doc'' [DeleteContentRange 16 17, InsertText 16 ''Y'']])"
    unfolding updateTableCellContent_def table_document_cell_range
    by (simp add: cellContentRequests_def executeBatchUpdate_def serving_def
          MAX_BATCH_UPDATE_REQUESTS_def Let_def)
  then show ?thesis
    by (simp add: table_document_def)
qed


section \<open>Properties of buildUpdateTextStyleRequest\<close>

lemma snd_setField:
  "snd (setField styleValue assign name b) =
     snd b @ (if styleValue \<noteq> None then [name] else [])"
  by (simp add: setField_def split: option.splits)

lemma setColor_Inr:
  "setColor styleValue assign name invalid b = Inr b' \<Longrightarrow>
   snd b' = snd b @ (if styleValue \<noteq> None then [name] else [])"
  by (auto simp: setColor_def split: option.splits)

lemma map_filter_concat:
  "map f (filter P xs) = concat (map (\<lambda>x. if P x then [f x] else []) xs)"
  by (induction xs) simp_all

lemma maskEntry_inj: "maskEntry p = maskEntry q \<Longrightarrow> p = q"
  by (cases p; cases q; simp)

lemma all_style_properties: "p \<in> set allStyleProperties"
  by (cases p) (simp_all add: allStyleProperties_def)

lemma buildUpdateTextStyleRequest_fields:
  assumes "buildUpdateTextStyleRequest startIndex endIndex style = Inr (Some (request, fieldsToUpdate))"
  shows "fieldsToUpdate = map maskEntry (filter (isSet style) allStyleProperties)
       \<and> (\<exists>textStyle. request = UpdateTextStyle startIndex endIndex textStyle (join '','' fieldsToUpdate))"
proof -
  define b6 where "b6 =
    setField (fontFamily style) (\<lambda>ts v. ts\<lparr>ts_weightedFontFamily := Some v\<rparr>) ''weightedFontFamily''
     (setField (fontSize style) (\<lambda>ts v. ts\<lparr>ts_fontSize := Some v\<rparr>) ''fontSize''
       (setField (strikethrough style) (\<lambda>ts v. ts\<lparr>ts_strikethrough := Some v\<rparr>) ''strikethrough''
         (setField (underline style) (\<lambda>ts v. ts\<lparr>ts_underline := Some v\<rparr>) ''underline''
           (setField (italic style) (\<lambda>ts v. ts\<lparr>ts_italic := Some v\<rparr>) ''italic''
             (setField (bold style) (\<lambda>ts v. ts\<lparr>ts_bold := Some v\<rparr>) ''bold''
               (emptyTextStyle, []))))))"
  from assms obtain b7 b8 where
    b7: "setColor (foregroundColor style) (\<lambda>ts c. ts\<lparr>ts_foregroundColor := Some c\<rparr>)
           ''foregroundColor'' InvalidForegroundColor b6 = Inr b7" and
    b8: "setColor (backgroundColor style) (\<lambda>ts c. ts\<lparr>ts_backgroundColor := Some c\<rparr>)
           ''backgroundColor'' InvalidBackgroundColor b7 = Inr b8" and
    res: "fieldsToUpdate = snd (setField (linkUrl style) (\<lambda>ts v. ts\<lparr>ts_link := Some v\<rparr>) ''link'' b8)"
         "request = UpdateTextStyle startIndex endIndex
            (fst (setField (linkUrl style) (\<lambda>ts v. ts\<lparr>ts_link := Some v\<rparr>) ''link'' b8))
            (join '','' fieldsToUpdate)"
    unfolding buildUpdateTextStyleRequest_def Let_def b6_def
    by (auto split: sum.splits if_splits)
  have "snd b6 = (if bold style \<noteq> None then [''bold''] else [])
      @ (if italic style \<noteq> None then [''italic''] else [])
      @ (if underline style \<noteq> None then [''underline''] else [])
      @ (if strikethrough style \<noteq> None then [''strikethrough''] else [])
      @ (if fontSize style \<noteq> None then [''fontSize''] else [])
      @ (if fontFamily style \<noteq> None then [''weightedFontFamily''] else [])"
    unfolding b6_def snd_setField by (simp split del: if_split)
  with setColor_Inr[OF b7] setColor_Inr[OF b8] res(1)
  have "fieldsToUpdate = (if bold style \<noteq> None then [''bold''] else [])
      @ (if italic style \<noteq> None then [''italic''] else [])
      @ (if underline style \<noteq> None then [''underline''] else [])
      @ (if strikethrough style \<noteq> None then [''strikethrough''] else [])
      @ (if fontSize style \<noteq> None then [''fontSize''] else [])
      @ (if fontFamily style \<noteq> None then [''weightedFontFamily''] else [])
      @ (if foregroundColor style \<noteq> None then [''foregroundColor''] else [])
      @ (if backgroundColor style \<noteq> None then [''backgroundColor''] else [])
      @ (if linkUrl style \<noteq> None then [''link''] else [])"
    by (simp only: snd_setField append_assoc)
  then have "fieldsToUpdate = map maskEntry (filter (isSet style) allStyleProperties)"
    unfolding map_filter_concat allStyleProperties_def
    by (simp split del: if_split cong: if_cong)
  with res(2) show ?thesis by blast
qed

text \<open>
  Claim C7. When \<open>buildUpdateTextStyleRequest\<close> compiles a request, its field list has
  one entry for each property the intent sets, in the order the builder reads them, and
  none for a property the intent leaves out; the request's mask is that list joined by
  commas. The entry is the property's name (the font family is entered under the
  service's name \<open>weightedFontFamily\<close>, the link URL under \<open>link\<close>). An intent that sets
  only \<open>bold\<close> compiles to the mask \<open>bold\<close>.
\<close>

theorem field_mask_lists_exactly_the_set_properties:
  "(buildUpdateTextStyleRequest startIndex endIndex style = Inr (Some (request, fieldsToUpdate))
    \<longrightarrow> fieldsToUpdate = map maskEntry (filter (isSet style) allStyleProperties)
        \<and> distinct fieldsToUpdate
        \<and> (\<forall>property. maskEntry property \<in> set fieldsToUpdate \<longleftrightarrow> isSet style property)
        \<and> (\<exists>textStyle. request =
              UpdateTextStyle startIndex endIndex textStyle (join '','' fieldsToUpdate)))
   \<and> buildUpdateTextStyleRequest startIndex endIndex
        \<lparr>bold = Some True, italic = None, underline = None, strikethrough = None,
         fontSize = None, fontFamily = None, foregroundColor = None,
         backgroundColor = None, linkUrl = None\<rparr> =
      Inr (Some (UpdateTextStyle startIndex endIndex (emptyTextStyle\<lparr>ts_bold := Some True\<rparr>)
                   ''bold'',
                 [''bold'']))"
proof -
  have scenario: "buildUpdateTextStyleRequest startIndex endIndex
        \<lparr>bold = Some True, italic = None, underline = None, strikethrough = None,
         fontSize = None, fontFamily = None, foregroundColor = None,
         backgroundColor = None, linkUrl = None\<rparr> =
      Inr (Some (UpdateTextStyle startIndex endIndex (emptyTextStyle\<lparr>ts_bold := Some True\<rparr>)
                   ''bold'',
                 [''bold'']))"
    by (simp add: buildUpdateTextStyleRequest_def setField_def setColor_def Let_def)
  have general: "fieldsToUpdate = map maskEntry (filter (isSet style) allStyleProperties)
        \<and> distinct fieldsToUpdate
        \<and> (\<forall>property. maskEntry property \<in> set fieldsToUpdate \<longleftrightarrow> isSet style property)
        \<and> (\<exists>textStyle. request =
              UpdateTextStyle startIndex endIndex textStyle (join '','' fieldsToUpdate))"
    if built: "buildUpdateTextStyleRequest startIndex endIndex style = Inr (Some (request, fieldsToUpdate))"
  proof -
    note f = buildUpdateTextStyleRequest_fields[OF built]
    have inj: "inj_on maskEntry A" for A
      by (rule inj_onI) (rule maskEntry_inj)
    have "distinct allStyleProperties" by (simp add: allStyleProperties_def)
    then have d: "distinct fieldsToUpdate"
      using f by (simp add: distinct_map inj)
    have m: "maskEntry property \<in> set fieldsToUpdate \<longleftrightarrow> isSet style property" for property
      using f maskEntry_inj all_style_properties by auto
    from f d m show ?thesis by blast
  qed
  from scenario general show ?thesis by blast
qed

theorem field_mask_lists_exactly_the_set_properties_witness:
  "buildUpdateTextStyleRequest 3 9
     \<lparr>bold = Some True, italic = None, underline = None, strikethrough = None,
      fontSize = Some 12, fontFamily = Some ''Arial'', foregroundColor = Some ''#FF0000'',
      backgroundColor = None, linkUrl = None\<rparr> =
     Inr (Some (UpdateTextStyle 3 9
                  \<lparr>ts_bold = Some True, ts_italic = None, ts_underline = None,
                   ts_strikethrough = None, ts_fontSize = Some 12,
                   ts_weightedFontFamily = Some ''Arial'',
                   ts_foregroundColor = Some \<lparr>red = 1, green = 0, blue = 0\<rparr>,
                   ts_backgroundColor = None, ts_link = None\<rparr>
                  ''bold,fontSize,weightedFontFamily,foregroundColor'',
                [''bold'', ''fontSize'', ''weightedFontFamily'', ''foregroundColor'']))
   \<and> [''bold'', ''fontSize'', ''weightedFontFamily'', ''foregroundColor''] =
       map maskEntry
         (filter (isSet \<lparr>bold = Some True, italic = None, underline = None,
                         strikethrough = None, fontSize = Some 12, fontFamily = Some ''Arial'',
                         foregroundColor = Some ''#FF0000'', backgroundColor = None,
                         linkUrl = None\<rparr>)
            allStyleProperties)"
proof -
  have color: "hexToRgbColor ''#FF0000'' = Some \<lparr>red = 1, green = 0, blue = 0\<rparr>"
    by (simp add: hexToRgbColor_def parseInt16_def isWhiteSpace_def hexDigitValue_def Let_def)
  have built: "buildUpdateTextStyleRequest 3 9
     \<lparr>bold = Some True, italic = None, underline = None, strikethrough = None,
      fontSize = Some 12, fontFamily = Some ''Arial'', foregroundColor = Some ''#FF0000'',
      backgroundColor = None, linkUrl = None\<rparr> =
     Inr (Some (UpdateTextStyle 3 9
                  \<lparr>ts_bold = Some True, ts_italic = None, ts_underline = None,
                   ts_strikethrough = None, ts_fontSize = Some 12,
                   ts_weightedFontFamily = Some ''Arial'',
                   ts_foregroundColor = Some \<lparr>red = 1, green = 0, blue = 0\<rparr>,
                   ts_backgroundColor = None, ts_link = None\<rparr>
                  ''bold,fontSize,weightedFontFamily,foregroundColor'',
                [''bold'', ''fontSize'', ''weightedFontFamily'', ''foregroundColor'']))"
    by (simp add: buildUpdateTextStyleRequest_def setField_def setColor_def color Let_def
          emptyTextStyle_def)
  from field_mask_lists_exactly_the_set_properties
         [THEN conjunct1, rule_format, OF built] built
  show ?thesis by simp
qed


section \<open>Properties of insertInlineImage\<close>

lemma insertInlineImage_rejects_other_protocols:
  "URL imageUrl = Some parsedUrl \<Longrightarrow>
   protocol parsedUrl \<noteq> ''http:'' \<Longrightarrow> protocol parsedUrl \<noteq> ''https:'' \<Longrightarrow>
   insertInlineImage URL docs documentId imageUrl index width height =
     (Inl (UserError (ProtocolNotSupported (protocol parsedUrl))), [])"
  by (simp add: insertInlineImage_def)

lemma insertInlineImage_rejects_unparsable:
  "URL imageUrl = None \<Longrightarrow>
   insertInlineImage URL docs documentId imageUrl index width height =
     (Inl (UserError (InvalidImageUrl imageUrl)), [])"
  by (simp add: insertInlineImage_def)

lemma loopback_address_is_private: "list_ex (\<lambda>pattern. pattern ''127.0.0.1'') privateRanges"
  by (simp add: privateRanges_def Plus_def digit_def)

text \<open>Scenario D: the host \<open>127.0.0.1\<close> is rejected and nothing is submitted.\<close>

lemma insertInlineImage_rejects_loopback:
  "insertInlineImage
     (parsesTo ''http://127.0.0.1/image.png'' \<lparr>protocol = ''http:'', hostname = ''127.0.0.1''\<rparr>)
     docs ''doc'' ''http://127.0.0.1/image.png'' 1 None None =
     (Inl (UserError (PrivateAddressNotAllowed ''127.0.0.1'')), [])"
  using loopback_address_is_private
  by (simp add: insertInlineImage_def parsesTo_def)

lemma matchesWhole_Never: "\<not> matchesWhole Never s"
  by (induction s) simp_all

lemma matchesWhole_Alt: "matchesWhole (Alt r q) s = (matchesWhole r s \<or> matchesWhole q s)"
  by (induction s arbitrary: r q) simp_all

lemma matchesWhole_Seq_nullable:
  "nullable r \<Longrightarrow> matchesWhole q s \<Longrightarrow> matchesWhole (Seq r q) s"
  by (cases s) (simp_all add: matchesWhole_Alt)

lemma matchesWhole_Seq:
  "matchesWhole r u \<Longrightarrow> matchesWhole q v \<Longrightarrow> matchesWhole (Seq r q) (u @ v)"
proof (induction u arbitrary: r)
  case Nil
  then show ?case by (simp add: matchesWhole_Seq_nullable)
next
  case (Cons c u)
  then have "matchesWhole (Seq (deriv c r) q) (u @ v)" by simp
  then show ?case by (simp add: matchesWhole_Alt)
qed

lemma matchesWhole_Lit: "matchesWhole (Lit c) [c]"
  by simp

lemma matchesWhole_Str: "matchesWhole (Str s) s"
proof (induction s)
  case Nil
  show ?case by simp
next
  case (Cons c s)
  from matchesWhole_Seq[OF matchesWhole_Lit Cons] show ?case by simp
qed

lemma matchesWhole_Star_OneOf:
  "\<forall>c \<in> set s. c \<in> set cs \<Longrightarrow> matchesWhole (Star (OneOf cs)) s"
proof (induction s)
  case Nil
  show ?case by simp
next
  case (Cons c s)
  then have "matchesWhole (deriv c (OneOf cs)) []" "matchesWhole (Star (OneOf cs)) s"
    by simp_all
  from matchesWhole_Seq[OF this] show ?case by simp
qed

lemma matchesWhole_Plus_OneOf:
  assumes "s \<noteq> []" "\<forall>c \<in> set s. c \<in> set cs"
  shows "matchesWhole (Plus (OneOf cs)) s"
proof -
  from assms(1) obtain c s' where s: "s = c # s'" by (cases s) auto
  with assms(2) have "matchesWhole (OneOf cs) [c]" "matchesWhole (Star (OneOf cs)) s'"
    by (simp_all add: matchesWhole_Star_OneOf)
  from matchesWhole_Seq[OF this] s show ?thesis by (simp add: Plus_def)
qed

lemma length_decimalDigits: "length decimalDigits = 10"
  by (simp add: decimalDigits_def)

lemma decimal_digits:
  "decimal n \<noteq> [] \<and> (\<forall>c \<in> set (decimal n). c \<in> set decimalDigits)"
proof (induction n rule: decimal.induct)
  case (1 n)
  have d: "decimalDigits ! k \<in> set decimalDigits" if "k < 10" for k
    using that by (simp add: length_decimalDigits)
  show ?case
  proof (cases "n < 10")
    case True
    then show ?thesis using d[of n] by (subst (1 2) decimal.simps) simp
  next
    case False
    have "n mod 10 < 10" by simp
    with 1 False d[of "n mod 10"] show ?thesis
      by (subst (1 2) decimal.simps) auto
  qed
qed

lemma digit_OneOf: "digit = OneOf decimalDigits"
  by (simp add: digit_def decimalDigits_def)

lemma matchesWhole_decimal: "matchesWhole (Plus digit) (decimal n)"
  using decimal_digits[of n] by (simp add: matchesWhole_Plus_OneOf digit_OneOf)

lemma matchesWhole_Seqs:
  "list_all2 matchesWhole rs us \<Longrightarrow> matchesWhole (Seqs rs) (concat us)"
proof (induction rs us rule: list_all2_induct)
  case Nil
  show ?case by simp
next
  case (Cons r rs u us)
  from matchesWhole_Seq[OF Cons(1) Cons(3)] show ?case by simp
qed

lemma dotted_pattern:
  assumes "matchesWhole first (decimal a)" "matchesWhole second (decimal b)"
  shows "matchesWhole
           (Seqs [first, Lit CHR ''.'', second, Lit CHR ''.'', Plus digit, Lit CHR ''.'', Plus digit])
           (dottedQuad a b c d)"
proof -
  have "list_all2 matchesWhole
          [first, Lit CHR ''.'', second, Lit CHR ''.'', Plus digit, Lit CHR ''.'', Plus digit]
          [decimal a, ''.'', decimal b, ''.'', decimal c, ''.'', decimal d]"
    using assms by (simp add: matchesWhole_decimal)
  from matchesWhole_Seqs[OF this] show ?thesis by (simp add: dottedQuad_def)
qed

lemma decimal_127: "decimal 127 = ''127''"
  by code_simp
lemma decimal_10: "decimal 10 = ''10''"
  by code_simp
lemma decimal_172: "decimal 172 = ''172''"
  by code_simp
lemma decimal_192: "decimal 192 = ''192''"
  by code_simp
lemma decimal_168: "decimal 168 = ''168''"
  by code_simp
lemma decimal_169: "decimal 169 = ''169''"
  by code_simp
lemma decimal_254: "decimal 254 = ''254''"
  by code_simp

lemma second_octet_16_to_31:
  assumes "16 \<le> b" "b \<le> 31"
  shows "matchesWhole
           (Alt (Seq (Lit CHR ''1'') (OneOf ''6789''))
              (Alt (Seq (Lit CHR ''2'') digit) (Seq (Lit CHR ''3'') (OneOf ''01''))))
           (decimal b)"
proof -
  have "list_all (\<lambda>b. matchesWhole
           (Alt (Seq (Lit CHR ''1'') (OneOf ''6789''))
              (Alt (Seq (Lit CHR ''2'') digit) (Seq (Lit CHR ''3'') (OneOf ''01''))))
           (decimal b)) [16..<32]"
    by code_simp
  moreover from assms have "b \<in> set [16..<32]" unfolding set_upt by auto
  ultimately show ?thesis unfolding list_all_iff by blast
qed

text \<open>
  The part of the private-address list that is complete: the textual form
  \<open>a.b.c.d\<close> of every address of the ranges 127/8, 10/8, 172.16/12, 192.168/16 and
  169.254/16 matches a pattern.
\<close>

lemma private_ipv4_matches_a_pattern:
  assumes "privateIPv4 a b c d"
  shows "list_ex (\<lambda>pattern. pattern (dottedQuad a b c d)) privateRanges"
proof -
  from assms consider "a = 127" | "a = 10" | "a = 172" "16 \<le> b" "b \<le> 31"
    | "a = 192" "b = 168" | "a = 169" "b = 254"
    unfolding privateIPv4_def by blast
  then show ?thesis
  proof cases
    case 1
    have "matchesWhole (Seqs [Str ''127'', Lit CHR ''.'', Plus digit, Lit CHR ''.'', Plus digit,
                          Lit CHR ''.'', Plus digit]) (dottedQuad a b c d)"
      using 1 matchesWhole_Str[of "''127''"]
      by (intro dotted_pattern) (simp_all only: decimal_127 matchesWhole_decimal)
    then show ?thesis by (simp add: privateRanges_def)
  next
    case 2
    have "matchesWhole (Seqs [Str ''10'', Lit CHR ''.'', Plus digit, Lit CHR ''.'', Plus digit,
                          Lit CHR ''.'', Plus digit]) (dottedQuad a b c d)"
      using 2 matchesWhole_Str[of "''10''"]
      by (intro dotted_pattern) (simp_all only: decimal_10 matchesWhole_decimal)
    then show ?thesis by (simp add: privateRanges_def)
  next
    case 3
    have "matchesWhole (Seqs [Str ''172'', Lit CHR ''.'',
                          Alt (Seq (Lit CHR ''1'') (OneOf ''6789''))
                            (Alt (Seq (Lit CHR ''2'') digit) (Seq (Lit CHR ''3'') (OneOf ''01''))),
                          Lit CHR ''.'', Plus digit, Lit CHR ''.'', Plus digit])
            (dottedQuad a b c d)"
      using 3 matchesWhole_Str[of "''172''"] second_octet_16_to_31[of b]
      by (intro dotted_pattern) (simp_all only: decimal_172)
    then show ?thesis by (simp add: privateRanges_def)
  next
    case 4
    have "matchesWhole (Seqs [Str ''192'', Lit CHR ''.'', Str ''168'', Lit CHR ''.'', Plus digit,
                          Lit CHR ''.'', Plus digit]) (dottedQuad a b c d)"
      using 4 matchesWhole_Str[of "''192''"] matchesWhole_Str[of "''168''"]
      by (intro dotted_pattern) (simp_all only: decimal_192 decimal_168)
    then show ?thesis by (simp add: privateRanges_def)
  next
    case 5
    have "matchesWhole (Seqs [Str ''169'', Lit CHR ''.'', Str ''254'', Lit CHR ''.'', Plus digit,
                          Lit CHR ''.'', Plus digit]) (dottedQuad a b c d)"
      using 5 matchesWhole_Str[of "''169''"] matchesWhole_Str[of "''254''"]
      by (intro dotted_pattern) (simp_all only: decimal_169 decimal_254)
    then show ?thesis by (simp add: privateRanges_def)
  qed
qed

lemma insertInlineImage_rejects_private_ipv4:
  assumes "URL imageUrl = Some parsedUrl" "hostname parsedUrl = dottedQuad a b c d"
    "privateIPv4 a b c d"
  shows "insertInlineImage URL docs documentId imageUrl index width height =
     (Inl (UserError (if protocol parsedUrl \<noteq> ''http:'' \<and> protocol parsedUrl \<noteq> ''https:''
                      then ProtocolNotSupported (protocol parsedUrl)
                      else PrivateAddressNotAllowed (hostname parsedUrl))), [])"
  using assms private_ipv4_matches_a_pattern[OF assms(3)]
  by (simp add: insertInlineImage_def)

lemma localhost_matches_a_pattern:
  "toLowerCase h = ''localhost'' \<Longrightarrow> list_ex (\<lambda>pattern. pattern h) privateRanges"
  using matchesWhole_Str[of "''localhost''"] by (simp add: privateRanges_def)

lemma unique_local_address_matches_no_pattern:
  "\<not> list_ex (\<lambda>pattern. pattern ''[fd00::1]'') privateRanges"
  by (simp add: privateRanges_def Plus_def digit_def toLowerCase_def toLowerCase_char_def)

text \<open>
  Claim C9 asks that every image URL whose host is a loopback or private address is
  rejected before a request is compiled or a call is made. The source does so for the
  hosts above, and not for the image URL \<open>http://[fd00::1]/image.png\<close>, whose host is an
  address of the IPv6 unique local range \<open>fc00::/7\<close>: the list tests that range by the
  text \<open>[fc00:\<close> alone, the host matches no pattern, and the request is compiled and
  submitted.
\<close>

theorem private_ipv6_address_is_not_rejected:
  "insertInlineImage
     (parsesTo ''http://[fd00::1]/image.png'' \<lparr>protocol = ''http:'', hostname = ''[fd00::1]''\<rparr>)
     accepting_docs ''doc'' ''http://[fd00::1]/image.png'' 1 None None =
     (Inr (ResponseData ()),
      [BatchUpdateCall ''doc'' [InsertInlineImage 1 ''http://[fd00::1]/image.png'' None]])"
  using unique_local_address_matches_no_pattern
  by (simp add: insertInlineImage_def parsesTo_def executeBatchUpdate_def accepting_docs_def
        serving_def MAX_BATCH_UPDATE_REQUESTS_def)

end
